theory Spec2Isabelle
  imports Complex_Main
begin

section \<open>Data model\<close>

text \<open>
  The Go sources \<^verbatim>\<open>query.go\<close> and \<^verbatim>\<open>sql.go\<close> are embedded shallowly. Strings are
  byte lists. A \<^verbatim>\<open>float64\<close> is only ever stored, compared with zero and handed to the
  formatter, so it is carried as a real number; a \<^verbatim>\<open>time.Time\<close> is carried as its instant
  in nanoseconds.
\<close>

type_synonym float64 = real
type_synonym time = int

text \<open>
  The dynamically typed values (\<^verbatim>\<open>any\<close>) that a row map holds: the three nullable structs
  of \<^verbatim>\<open>database/sql\<close> (payload first, then the \<^verbatim>\<open>Valid\<close> flag, as the structs declare
  them), the untyped \<^verbatim>\<open>nil\<close> and a plain Go string.
\<close>

datatype any =
    Nil
  | NullString string bool
  | NullFloat64 float64 bool
  | NullTime time bool
  | GoString string

type_synonym row = "string \<rightharpoonup> any"

text \<open>
  Functions of the Go standard library that the code calls and whose results the model
  does not compute: \<^verbatim>\<open>fmt.Sprintf("%v", f)\<close> on a float, \<^verbatim>\<open>fmt.Sprintf("%v", v)\<close> on any
  other value, \<^verbatim>\<open>Time.Format(layout)\<close>, \<^verbatim>\<open>time.Parse(layout, s)\<close> (\<open>None\<close> is the parse
  error) and \<^verbatim>\<open>time.Since(t).Seconds()\<close>, which reads the clock: one reading of the clock
  stands for all the calls of one evaluation.
\<close>

record stdlib =
  fmtFloat :: "float64 \<Rightarrow> string"
  fmtAny :: "any \<Rightarrow> string"
  timeFormat :: "time \<Rightarrow> string \<Rightarrow> string"
  timeParse :: "string \<Rightarrow> string \<Rightarrow> time option"
  sinceSeconds :: "time \<Rightarrow> float64"

text \<open>
  The configuration structs of package \<^verbatim>\<open>config\<close>, with the fields the two files read.
  The field \<^verbatim>\<open>Values\<close> of \<^verbatim>\<open>MetricConfig\<close> is named \<open>ValueColumns\<close> here, since
  \<^verbatim>\<open>RowFilter\<close> has a field of the same name.
\<close>

record RowFilter =
  Column :: string
  Operator :: string
  Value :: string
  Values :: "string list"

record LagCalculation =
  SourceColumn :: string
  OutputColumn :: string
  TimestampFormat :: string

record MetricConfig =
  LagCalculations :: "LagCalculation list"
  RowFilters :: "RowFilter list"
  KeyLabels :: "string list"
  ValueColumns :: "string list"
  TimestampValue :: string
  ColumnFilters :: "string list"

section \<open>Row filters\<close>

text \<open>\<^verbatim>\<open>strings.Contains(s, substr)\<close>: \<open>substr\<close> occurs in \<open>s\<close> at some offset.\<close>

primrec hasPrefix :: "string \<Rightarrow> string \<Rightarrow> bool" where
  "hasPrefix s [] = True"
| "hasPrefix s (c # cs) = (case s of [] \<Rightarrow> False | d # ds \<Rightarrow> d = c \<and> hasPrefix ds cs)"

primrec Contains :: "string \<Rightarrow> string \<Rightarrow> bool" where
  "Contains [] substr = (substr = [])"
| "Contains (c # cs) substr = (hasPrefix (c # cs) substr \<or> Contains cs substr)"

text \<open>The loop of the \<^verbatim>\<open>in\<close> operator: true at the first configured value equal to the string.\<close>

primrec inLoop :: "string \<Rightarrow> string list \<Rightarrow> bool" where
  "inLoop valueStr [] = False"
| "inLoop valueStr (v # vs) = (if valueStr = v then True else inLoop valueStr vs)"

text \<open>The loop of the \<^verbatim>\<open>not_in\<close> operator: false at the first configured value equal to the string.\<close>

primrec notInLoop :: "string \<Rightarrow> string list \<Rightarrow> bool" where
  "notInLoop valueStr [] = True"
| "notInLoop valueStr (v # vs) = (if valueStr = v then False else notInLoop valueStr vs)"

text \<open>The operator switch of \<^verbatim>\<open>applyRowFilter\<close>, on the stringified value.\<close>

definition applyOperator :: "string \<Rightarrow> RowFilter \<Rightarrow> bool" where
  "applyOperator valueStr flt =
     (if Operator flt = ''equals'' then valueStr = Value flt
      else if Operator flt = ''not_equals'' then valueStr \<noteq> Value flt
      else if Operator flt = ''in'' then inLoop valueStr (Values flt)
      else if Operator flt = ''not_in'' then notInLoop valueStr (Values flt)
      else if Operator flt = ''contains'' then Contains valueStr (Value flt)
      else True)"

text \<open>
  \<^verbatim>\<open>applyRowFilter\<close>: the column lookup, the type switch that stringifies the value (an
  invalid nullable value returns false at once), then the operator switch.
\<close>

definition applyRowFilter :: "stdlib \<Rightarrow> row \<Rightarrow> RowFilter \<Rightarrow> bool" where
  "applyRowFilter lib row flt =
     (case row (Column flt) of
        None \<Rightarrow> False
      | Some v \<Rightarrow>
          (case v of
             NullString s valid \<Rightarrow> if \<not> valid then False else applyOperator s flt
           | NullFloat64 f valid \<Rightarrow>
               if \<not> valid then False else applyOperator (fmtFloat lib f) flt
           | NullTime t valid \<Rightarrow>
               if \<not> valid then False
               else applyOperator (timeFormat lib t ''2006-01-02 15:04:05.000 UTC'') flt
           | _ \<Rightarrow> applyOperator (fmtAny lib v) flt))"

text \<open>The loop of \<^verbatim>\<open>shouldIncludeRow\<close>: false at the first filter that does not match.\<close>

primrec filterLoop :: "stdlib \<Rightarrow> row \<Rightarrow> RowFilter list \<Rightarrow> bool" where
  "filterLoop lib row [] = True"
| "filterLoop lib row (f # fs) =
     (if \<not> applyRowFilter lib row f then False else filterLoop lib row fs)"

definition shouldIncludeRow :: "stdlib \<Rightarrow> row \<Rightarrow> MetricConfig \<Rightarrow> bool" where
  "shouldIncludeRow lib row metric = filterLoop lib row (RowFilters metric)"

text \<open>A nullable value whose \<^verbatim>\<open>Valid\<close> flag is false (a SQL NULL).\<close>

fun isNull :: "any \<Rightarrow> bool" where
  "isNull (NullString s valid) = (\<not> valid)"
| "isNull (NullFloat64 f valid) = (\<not> valid)"
| "isNull (NullTime t valid) = (\<not> valid)"
| "isNull _ = False"

definition knownOperators :: "string list" where
  "knownOperators = [''equals'', ''not_equals'', ''in'', ''not_in'', ''contains'']"

text \<open>A standard library whose formatters are fixed, for evaluating the model on examples.\<close>

definition exampleLib :: stdlib where
  "exampleLib =
     \<lparr> fmtFloat = (\<lambda>f. if f = 0 then ''0'' else ''1''),
       fmtAny = (\<lambda>v. ''<any>''),
       timeFormat = (\<lambda>t layout. ''<time>''),
       timeParse = (\<lambda>layout s. if s = ''then'' then Some 70 else None),
       sinceSeconds = (\<lambda>t. real_of_int (100 - t)) \<rparr>"

section \<open>Transformations\<close>

text \<open>
  The tail of \<^verbatim>\<open>calculateLag\<close>, from the empty-string test on: the default layout, the
  parse, and the elapsed seconds since the parsed instant. A parse error gives 0.
\<close>

definition lagOfString :: "stdlib \<Rightarrow> string \<Rightarrow> string \<Rightarrow> float64" where
  "lagOfString lib timestampStr format =
     (if timestampStr = [] then 0
      else
        (case timeParse lib (if format = [] then ''2006-01-02 15:04:05.000 UTC'' else format)
                timestampStr of
           None \<Rightarrow> 0
         | Some parsedTime \<Rightarrow> sinceSeconds lib parsedTime))"

text \<open>
  \<^verbatim>\<open>calculateLag\<close>: the nil test, then the type switch. A valid \<^verbatim>\<open>sql.NullTime\<close> returns
  from inside the switch; every other kind of value reaches the parse as a string.
\<close>

definition calculateLag :: "stdlib \<Rightarrow> any \<Rightarrow> string \<Rightarrow> float64" where
  "calculateLag lib timestampValue format =
     (case timestampValue of
        Nil \<Rightarrow> 0
      | NullString s valid \<Rightarrow> if \<not> valid then 0 else lagOfString lib s format
      | NullTime t valid \<Rightarrow> if \<not> valid then 0 else sinceSeconds lib t
      | GoString s \<Rightarrow> lagOfString lib s format
      | _ \<Rightarrow> lagOfString lib (fmtAny lib timestampValue) format)"

text \<open>
  The lag-calculation loop of \<^verbatim>\<open>applyTransformations\<close>: the source column is read from
  \<open>row\<close>, the output column is written into \<open>result\<close>.
\<close>

primrec lagLoop :: "stdlib \<Rightarrow> row \<Rightarrow> LagCalculation list \<Rightarrow> row \<Rightarrow> row" where
  "lagLoop lib row [] result = result"
| "lagLoop lib row (lagCalc # rest) result =
     (case row (SourceColumn lagCalc) of
        Some sourceValue \<Rightarrow>
          (let lagSeconds = calculateLag lib sourceValue (TimestampFormat lagCalc)
           in lagLoop lib row rest
                (result(OutputColumn lagCalc \<mapsto> NullFloat64 lagSeconds (lagSeconds \<noteq> 0))))
      | None \<Rightarrow> lagLoop lib row rest result)"

text \<open>The column-allowlist loop: the listed columns that \<open>result\<close> has are copied.\<close>

primrec columnFilterLoop :: "row \<Rightarrow> string list \<Rightarrow> row \<Rightarrow> row" where
  "columnFilterLoop result [] filtered = filtered"
| "columnFilterLoop result (column # rest) filtered =
     (case result column of
        Some v \<Rightarrow> columnFilterLoop result rest (filtered(column \<mapsto> v))
      | None \<Rightarrow> columnFilterLoop result rest filtered)"

text \<open>
  \<^verbatim>\<open>applyTransformations\<close>, on map values: a new map receives every entry of the row, then
  the lag columns, and is filtered by the allowlist when there is one.
\<close>

definition applyTransformations :: "stdlib \<Rightarrow> row \<Rightarrow> MetricConfig \<Rightarrow> row" where
  "applyTransformations lib row metric =
     (let result = lagLoop lib row (LagCalculations metric) (Map.empty ++ row)
      in if length (ColumnFilters metric) > 0
         then columnFilterLoop result (ColumnFilters metric) Map.empty
         else result)"

section \<open>Column roles and query construction\<close>

datatype columnType = columnTypeKey | columnTypeValue | columnTypeTime

text \<open>
  \<^verbatim>\<open>columnTypeMap\<close>, a Go map, as an association list with one pair per key in the order
  of insertion (Go leaves the order of iteration open; the model's statements about
  iterations speak of sets only).
\<close>

type_synonym columnTypeMap = "(string \<times> columnType) list"

text \<open>
  The errors the two files build, one constructor per call of package \<^verbatim>\<open>errors\<close>: a role
  conflict and a list of missing columns (both \<^verbatim>\<open>errors.Errorf\<close>, with the log context), and
  a driver or context error (its text) wrapped with the log context, with or without a
  message.
\<close>

datatype error =
    ColumnConflict string string
  | MissingValues string "string list"
  | Wrap string string
  | Wrapf string string string

record QueryConfig =
  Name :: string
  QueryText :: string
  NoPreparedStatement :: bool

type_synonym handle = nat
type_synonym statement = nat

text \<open>
  \<^verbatim>\<open>Query\<close>. A metric family is known to these files by its configuration only. The two
  pointers \<open>conn\<close> and \<open>stmt\<close> are \<open>None\<close> when nil.
\<close>

record Query =
  config :: QueryConfig
  metricFamilies :: "MetricConfig list"
  columnTypes :: columnTypeMap
  logContext :: string
  conn :: "handle option"
  stmt :: "statement option"

definition setColumnType ::
  "string \<Rightarrow> string \<Rightarrow> columnType \<Rightarrow> columnTypeMap \<Rightarrow> error + columnTypeMap" where
  "setColumnType ctx columnName ctype cts =
     (case map_of cts columnName of
        Some previousType \<Rightarrow>
          if previousType \<noteq> ctype then Inl (ColumnConflict ctx columnName) else Inr cts
      | None \<Rightarrow> Inr (cts @ [(columnName, ctype)]))"

text \<open>
  The first loop of a metric family: each lag calculation marks its output column as
  transformed and registers its source column as a key.
\<close>

primrec lagColumnsLoop ::
  "string \<Rightarrow> LagCalculation list \<Rightarrow> string list \<times> columnTypeMap
   \<Rightarrow> error + (string list \<times> columnTypeMap)" where
  "lagColumnsLoop ctx [] acc = Inr acc"
| "lagColumnsLoop ctx (lagCalc # rest) acc =
     (case setColumnType ctx (SourceColumn lagCalc) columnTypeKey (snd acc) of
        Inl err \<Rightarrow> Inl err
      | Inr cts \<Rightarrow> lagColumnsLoop ctx rest (OutputColumn lagCalc # fst acc, cts))"

primrec filterColumnsLoop ::
  "string \<Rightarrow> RowFilter list \<Rightarrow> columnTypeMap \<Rightarrow> error + columnTypeMap" where
  "filterColumnsLoop ctx [] cts = Inr cts"
| "filterColumnsLoop ctx (flt # rest) cts =
     (case setColumnType ctx (Column flt) columnTypeKey cts of
        Inl err \<Rightarrow> Inl err
      | Inr cts' \<Rightarrow> filterColumnsLoop ctx rest cts')"

primrec keyLabelsLoop :: "string \<Rightarrow> string list \<Rightarrow> columnTypeMap \<Rightarrow> error + columnTypeMap" where
  "keyLabelsLoop ctx [] cts = Inr cts"
| "keyLabelsLoop ctx (kcol # rest) cts =
     (case setColumnType ctx kcol columnTypeKey cts of
        Inl err \<Rightarrow> Inl err
      | Inr cts' \<Rightarrow> keyLabelsLoop ctx rest cts')"

text \<open>The loop over the value columns skips those that a transformation of the family creates.\<close>

primrec valuesLoop ::
  "string \<Rightarrow> string list \<Rightarrow> string list \<Rightarrow> columnTypeMap \<Rightarrow> error + columnTypeMap" where
  "valuesLoop ctx transformedColumns [] cts = Inr cts"
| "valuesLoop ctx transformedColumns (vcol # rest) cts =
     (if vcol \<notin> set transformedColumns
      then (case setColumnType ctx vcol columnTypeValue cts of
              Inl err \<Rightarrow> Inl err
            | Inr cts' \<Rightarrow> valuesLoop ctx transformedColumns rest cts')
      else valuesLoop ctx transformedColumns rest cts)"

text \<open>The body of the loop over the metric families, for one family.\<close>

definition registerFamily :: "string \<Rightarrow> MetricConfig \<Rightarrow> columnTypeMap \<Rightarrow> error + columnTypeMap" where
  "registerFamily ctx mf cts =
     (case lagColumnsLoop ctx (LagCalculations mf) ([], cts) of
        Inl err \<Rightarrow> Inl err
      | Inr (transformedColumns, cts1) \<Rightarrow>
     (case filterColumnsLoop ctx (RowFilters mf) cts1 of
        Inl err \<Rightarrow> Inl err
      | Inr cts2 \<Rightarrow>
     (case keyLabelsLoop ctx (KeyLabels mf) cts2 of
        Inl err \<Rightarrow> Inl err
      | Inr cts3 \<Rightarrow>
     (case valuesLoop ctx transformedColumns (ValueColumns mf) cts3 of
        Inl err \<Rightarrow> Inl err
      | Inr cts4 \<Rightarrow>
          if TimestampValue mf \<noteq> []
          then setColumnType ctx (TimestampValue mf) columnTypeTime cts4
          else Inr cts4))))"

primrec familiesLoop :: "string \<Rightarrow> MetricConfig list \<Rightarrow> columnTypeMap \<Rightarrow> error + columnTypeMap" where
  "familiesLoop ctx [] cts = Inr cts"
| "familiesLoop ctx (mf # rest) cts =
     (case registerFamily ctx mf cts of
        Inl err \<Rightarrow> Inl err
      | Inr cts' \<Rightarrow> familiesLoop ctx rest cts')"

text \<open>
  \<^verbatim>\<open>NewQuery\<close>. \<^verbatim>\<open>TrimMissingCtx\<close> is declared in another file of the package and is the
  parameter \<open>trimMissingCtx\<close>; the log context is
  \<^verbatim>\<open>TrimMissingCtx(fmt.Sprintf("%s,query=%s", logContext, qc.Name))\<close>.
\<close>

definition queryContext :: "(string \<Rightarrow> string) \<Rightarrow> string \<Rightarrow> QueryConfig \<Rightarrow> string" where
  "queryContext trimMissingCtx ctx qc = trimMissingCtx (ctx @ '',query='' @ Name qc)"

definition NewQuery ::
  "(string \<Rightarrow> string) \<Rightarrow> string \<Rightarrow> QueryConfig \<Rightarrow> MetricConfig list \<Rightarrow> error + Query" where
  "NewQuery trimMissingCtx ctx qc mfs =
     (case familiesLoop (queryContext trimMissingCtx ctx qc) mfs [] of
        Inl err \<Rightarrow> Inl err
      | Inr cts \<Rightarrow>
          Inr \<lparr> config = qc, metricFamilies = mfs, columnTypes = cts,
                logContext = queryContext trimMissingCtx ctx qc, conn = None, stmt = None \<rparr>)"

subsection \<open>The registrations of a query, as a list\<close>

text \<open>
  The calls of \<^verbatim>\<open>setColumnType\<close> that \<^verbatim>\<open>NewQuery\<close> makes for one metric family, in order, each
  as the column and the role it passes: a key for the source column of every lag
  calculation, for the column of every row filter and for every key label; a value for
  every value column that is not the output column of a lag calculation of this family;
  a time for the timestamp column when it is not empty.
\<close>

definition familyRegistrations :: "MetricConfig \<Rightarrow> (string \<times> columnType) list" where
  "familyRegistrations mf =
     map (\<lambda>lagCalc. (SourceColumn lagCalc, columnTypeKey)) (LagCalculations mf)
     @ map (\<lambda>flt. (Column flt, columnTypeKey)) (RowFilters mf)
     @ map (\<lambda>kcol. (kcol, columnTypeKey)) (KeyLabels mf)
     @ map (\<lambda>vcol. (vcol, columnTypeValue))
         (filter (\<lambda>vcol. vcol \<notin> set (map OutputColumn (LagCalculations mf))) (ValueColumns mf))
     @ (if TimestampValue mf \<noteq> [] then [(TimestampValue mf, columnTypeTime)] else [])"

definition registrations :: "MetricConfig list \<Rightarrow> (string \<times> columnType) list" where
  "registrations mfs = concat (map familyRegistrations mfs)"

text \<open>A list of registrations made one after the other, up to the first error.\<close>

primrec registerAll ::
  "string \<Rightarrow> (string \<times> columnType) list \<Rightarrow> columnTypeMap \<Rightarrow> error + columnTypeMap" where
  "registerAll ctx [] cts = Inr cts"
| "registerAll ctx (r # rest) cts =
     (case setColumnType ctx (fst r) (snd r) cts of
        Inl err \<Rightarrow> Inl err
      | Inr cts' \<Rightarrow> registerAll ctx rest cts')"

text \<open>Two registrations of one column with different roles.\<close>

definition conflicting :: "(string \<times> columnType) list \<Rightarrow> bool" where
  "conflicting regs = (\<exists>r \<in> set regs. \<exists>r' \<in> set regs. fst r = fst r' \<and> snd r \<noteq> snd r')"

text \<open>The columns registered twice with different roles.\<close>

definition conflictColumns :: "(string \<times> columnType) list \<Rightarrow> string set" where
  "conflictColumns regs =
     {fst r | r. r \<in> set regs \<and> (\<exists>r' \<in> set regs. fst r = fst r' \<and> snd r \<noteq> snd r')}"

section \<open>Execution\<close>

text \<open>
  The database side. A value that the driver delivers for one column of one row is NULL or
  a value (its text); a cursor (\<^verbatim>\<open>sql.Rows\<close>) answers \<^verbatim>\<open>Columns()\<close> with an error or the column
  names, yields the rows for which \<^verbatim>\<open>Next()\<close> is true, and answers \<^verbatim>\<open>Err()\<close> at the end.
\<close>

datatype driverValue = DNull | DValue string

record Rows =
  Columns :: "string + string list"
  Data :: "driverValue list list"
  RowsErr :: "string option"

text \<open>
  The calls on a database handle and on a prepared statement, each answering with the
  driver's error text or its result.
\<close>

record database =
  QueryContext :: "handle \<Rightarrow> string \<Rightarrow> string + Rows"
  PrepareContext :: "handle \<Rightarrow> string \<Rightarrow> string + statement"
  StmtQueryContext :: "statement \<Rightarrow> string + Rows"

text \<open>
  What \<^verbatim>\<open>convertAssign\<close> of \<^verbatim>\<open>database/sql\<close> makes of a value that is not NULL, for each of the
  three payload types: a conversion error or the payload.
\<close>

record conversions =
  toString :: "string \<Rightarrow> string + string"
  toFloat64 :: "string \<Rightarrow> string + float64"
  toTime :: "string \<Rightarrow> string + time"

text \<open>A call either panics (with the message) or returns.\<close>

datatype 'a outcome = Panic string | Return 'a

text \<open>\<^verbatim>\<open>return rows, errors.Wrap(q.logContext, err)\<close>: a nil error stays nil.\<close>

definition wrapRows :: "string \<Rightarrow> string + Rows \<Rightarrow> error + Rows" where
  "wrapRows ctx r = (case r of Inl err \<Rightarrow> Inl (Wrap ctx err) | Inr rows \<Rightarrow> Inr rows)"

text \<open>
  \<^verbatim>\<open>run\<close>: the handle test comes first and panics; then the unprepared mode; then the
  prepared mode, which prepares the statement once and stores the handle with it. The
  query is returned with the result, since \<^verbatim>\<open>run\<close> writes its fields.
\<close>

definition run :: "database \<Rightarrow> Query \<Rightarrow> handle \<Rightarrow> (Query \<times> (error + Rows)) outcome" where
  "run db q c =
     (if conn q \<noteq> None \<and> conn q \<noteq> Some c
      then Panic (''['' @ logContext q @ ''] Expecting to always run on the same database handle'')
      else if NoPreparedStatement (config q)
      then Return (q, wrapRows (logContext q) (QueryContext db c (QueryText (config q))))
      else
        (case stmt q of
           None \<Rightarrow>
             (case PrepareContext db c (QueryText (config q)) of
                Inl err \<Rightarrow> Return (q, Inl (Wrapf (logContext q) err ''prepare query failed''))
              | Inr s \<Rightarrow>
                  Return (q\<lparr>conn := Some c, stmt := Some s\<rparr>,
                          wrapRows (logContext q) (StmtQueryContext db s)))
         | Some s \<Rightarrow> Return (q, wrapRows (logContext q) (StmtQueryContext db s))))"

text \<open>
  A sequence of calls of \<^verbatim>\<open>run\<close> on one query, each on its handle and with the database as
  it answers at that call: the query after the last call, or the first panic.
\<close>

primrec runs :: "Query \<Rightarrow> (database \<times> handle) list \<Rightarrow> Query outcome" where
  "runs q [] = Return q"
| "runs q (call # rest) =
     (case run (fst call) q (snd call) of
        Panic msg \<Rightarrow> Panic msg
      | Return r \<Rightarrow> runs (fst r) rest)"

subsection \<open>Destination slots\<close>

text \<open>
  The pointers \<^verbatim>\<open>scanDest\<close> allocates: \<^verbatim>\<open>new(sql.NullString)\<close>, \<^verbatim>\<open>new(sql.NullFloat64)\<close>,
  \<^verbatim>\<open>new(sql.NullTime)\<close> and \<^verbatim>\<open>new(any)\<close>.
\<close>

datatype slot = NullStringSlot | NullFloat64Slot | NullTimeSlot | AnySlot

text \<open>
  The loop of \<^verbatim>\<open>scanDest\<close> over the returned columns. \<open>have\<close> is a Go map used as a set:
  a list without repetition.
\<close>

primrec destLoop ::
  "columnTypeMap \<Rightarrow> string list \<Rightarrow> slot list \<times> string list \<Rightarrow> slot list \<times> string list" where
  "destLoop cts [] acc = acc"
| "destLoop cts (column # rest) acc =
     (case map_of cts column of
        Some columnTypeKey \<Rightarrow>
          destLoop cts rest (fst acc @ [NullStringSlot], List.insert column (snd acc))
      | Some columnTypeValue \<Rightarrow>
          destLoop cts rest (fst acc @ [NullFloat64Slot], List.insert column (snd acc))
      | Some columnTypeTime \<Rightarrow>
          destLoop cts rest (fst acc @ [NullTimeSlot], List.insert column (snd acc))
      | None \<Rightarrow> destLoop cts rest (fst acc @ [AnySlot], snd acc))"

definition scanDest :: "Query \<Rightarrow> Rows \<Rightarrow> error + slot list" where
  "scanDest q rows =
     (case Columns rows of
        Inl err \<Rightarrow> Inl (Wrap (logContext q) err)
      | Inr columns \<Rightarrow>
          (case destLoop (columnTypes q) columns ([], []) of
             (dest, have) \<Rightarrow>
               if length have \<noteq> length (columnTypes q)
               then Inl (MissingValues (logContext q)
                          (filter (\<lambda>c. c \<notin> set have) (map fst (columnTypes q))))
               else Inr dest))"

text \<open>The destination that the loop allocates for a column, as a function of its name.\<close>

definition slotFor :: "columnTypeMap \<Rightarrow> string \<Rightarrow> slot" where
  "slotFor cts column =
     (case map_of cts column of
        Some columnTypeKey \<Rightarrow> NullStringSlot
      | Some columnTypeValue \<Rightarrow> NullFloat64Slot
      | Some columnTypeTime \<Rightarrow> NullTimeSlot
      | None \<Rightarrow> AnySlot)"

subsection \<open>Scanning a row\<close>

text \<open>
  The zero \<^verbatim>\<open>time.Time\<close> (January 1 of year 1, UTC), in nanoseconds before the Unix epoch.
\<close>

definition zeroTime :: time where
  "zeroTime = - 62135596800 * 1000000000"

text \<open>
  \<^verbatim>\<open>Scan\<close> of one destination, as \<^verbatim>\<open>database/sql\<close> defines it for the three nullable
  types: NULL stores the zero payload with \<^verbatim>\<open>Valid = false\<close>; any other value sets
  \<^verbatim>\<open>Valid = true\<close> and converts the payload, which may fail. The \<^verbatim>\<open>new(any)\<close> destination
  takes anything and is never read afterwards; the model leaves \<open>Nil\<close> there.
\<close>

definition scanSlot :: "conversions \<Rightarrow> slot \<Rightarrow> driverValue \<Rightarrow> string + any" where
  "scanSlot conv s d =
     (case s of
        NullStringSlot \<Rightarrow>
          (case d of
             DNull \<Rightarrow> Inr (NullString [] False)
           | DValue x \<Rightarrow>
               (case toString conv x of Inl e \<Rightarrow> Inl e | Inr p \<Rightarrow> Inr (NullString p True)))
      | NullFloat64Slot \<Rightarrow>
          (case d of
             DNull \<Rightarrow> Inr (NullFloat64 0 False)
           | DValue x \<Rightarrow>
               (case toFloat64 conv x of Inl e \<Rightarrow> Inl e | Inr p \<Rightarrow> Inr (NullFloat64 p True)))
      | NullTimeSlot \<Rightarrow>
          (case d of
             DNull \<Rightarrow> Inr (NullTime zeroTime False)
           | DValue x \<Rightarrow>
               (case toTime conv x of Inl e \<Rightarrow> Inl e | Inr p \<Rightarrow> Inr (NullTime p True)))
      | AnySlot \<Rightarrow> Inr Nil)"

text \<open>What a destination of each role holds after scanning a NULL.\<close>

definition nullOf :: "columnType \<Rightarrow> any" where
  "nullOf t =
     (case t of
        columnTypeKey \<Rightarrow> NullString [] False
      | columnTypeValue \<Rightarrow> NullFloat64 0 False
      | columnTypeTime \<Rightarrow> NullTime zeroTime False)"

primrec scanLoop :: "conversions \<Rightarrow> (slot \<times> driverValue) list \<Rightarrow> string + any list" where
  "scanLoop conv [] = Inr []"
| "scanLoop conv (p # rest) =
     (case scanSlot conv (fst p) (snd p) of
        Inl e \<Rightarrow> Inl e
      | Inr v \<Rightarrow> (case scanLoop conv rest of Inl e \<Rightarrow> Inl e | Inr vs \<Rightarrow> Inr (v # vs)))"

text \<open>
  \<^verbatim>\<open>rows.Scan(dest...)\<close>: an error when the number of destinations is not the number of
  values of the row, or at the first destination whose conversion fails; otherwise the
  contents of the destinations.
\<close>

definition rowsScan :: "conversions \<Rightarrow> slot list \<Rightarrow> driverValue list \<Rightarrow> string + any list" where
  "rowsScan conv dest values =
     (if length dest \<noteq> length values
      then Inl ''sql: expected destination arguments in Scan''
      else scanLoop conv (zip dest values))"

text \<open>
  The loop of \<^verbatim>\<open>scanRow\<close> that picks the values of the columns with a role into the result
  map; \<open>dest[i]\<close> runs along with the columns. (\<^verbatim>\<open>scanDest\<close> made one destination per
  column, of the pointer type the same role map asks for, so that neither the index nor
  the type assertion can fail: lemma \<open>scanDest_eq\<close> below.)
\<close>

primrec pickLoop :: "columnTypeMap \<Rightarrow> (string \<times> any) list \<Rightarrow> row \<Rightarrow> row" where
  "pickLoop cts [] result = result"
| "pickLoop cts (p # rest) result =
     (case map_of cts (fst p) of
        Some columnTypeKey \<Rightarrow> pickLoop cts rest (result(fst p \<mapsto> snd p))
      | Some columnTypeTime \<Rightarrow> pickLoop cts rest (result(fst p \<mapsto> snd p))
      | Some columnTypeValue \<Rightarrow> pickLoop cts rest (result(fst p \<mapsto> snd p))
      | None \<Rightarrow> pickLoop cts rest result)"

definition scanRow ::
  "conversions \<Rightarrow> Query \<Rightarrow> Rows \<Rightarrow> slot list \<Rightarrow> driverValue list \<Rightarrow> error + row" where
  "scanRow conv q rows dest values =
     (case Columns rows of
        Inl err \<Rightarrow> Inl (Wrap (logContext q) err)
      | Inr columns \<Rightarrow>
          (case rowsScan conv dest values of
             Inl err \<Rightarrow> Inl (Wrapf (logContext q) err ''scanning of query result failed'')
           | Inr vals \<Rightarrow> Inr (pickLoop (columnTypes q) (zip columns vals) Map.empty)))"

subsection \<open>Collect\<close>

text \<open>
  What \<^verbatim>\<open>Collect\<close> does on the channel and with the metric families, in order:
  \<^verbatim>\<open>ch <- NewInvalidMetric(err)\<close>, and \<^verbatim>\<open>mf.Collect(transformedRow, ch)\<close> for a family (its
  configuration) and the row it is handed.
\<close>

datatype Metric = InvalidMetric error | FamilyCollect MetricConfig row

text \<open>The loop over the metric families, for one scanned row.\<close>

primrec familyLoop :: "stdlib \<Rightarrow> row \<Rightarrow> MetricConfig list \<Rightarrow> Metric list" where
  "familyLoop lib row [] = []"
| "familyLoop lib row (mf # rest) =
     (if \<not> shouldIncludeRow lib row mf then familyLoop lib row rest
      else FamilyCollect mf (applyTransformations lib row mf) # familyLoop lib row rest)"

text \<open>The loop \<^verbatim>\<open>for rows.Next()\<close>: a row that fails to scan sends one invalid metric.\<close>

primrec rowLoop ::
  "stdlib \<Rightarrow> conversions \<Rightarrow> Query \<Rightarrow> Rows \<Rightarrow> slot list \<Rightarrow> driverValue list list \<Rightarrow> Metric list" where
  "rowLoop lib conv q rows dest [] = []"
| "rowLoop lib conv q rows dest (values # rest) =
     (case scanRow conv q rows dest values of
        Inl err \<Rightarrow> InvalidMetric err # rowLoop lib conv q rows dest rest
      | Inr row \<Rightarrow> familyLoop lib row (metricFamilies q) @ rowLoop lib conv q rows dest rest)"

text \<open>
  \<^verbatim>\<open>Collect\<close> from \<^verbatim>\<open>scanDest\<close> on, once \<^verbatim>\<open>run\<close> has returned a cursor. \<open>ignoreMissingVals\<close>
  is the global \<^verbatim>\<open>config.IgnoreMissingVals\<close>.
\<close>

definition collectRows :: "stdlib \<Rightarrow> conversions \<Rightarrow> bool \<Rightarrow> Query \<Rightarrow> Rows \<Rightarrow> Metric list" where
  "collectRows lib conv ignoreMissingVals q rows =
     (case scanDest q rows of
        Inl err \<Rightarrow> if ignoreMissingVals then [] else [InvalidMetric err]
      | Inr dest \<Rightarrow>
          rowLoop lib conv q rows dest (Data rows)
          @ (case RowsErr rows of
               Some err1 \<Rightarrow> [InvalidMetric (Wrap (logContext q) err1)]
             | None \<Rightarrow> []))"

text \<open>
  \<^verbatim>\<open>Collect\<close>: \<open>ctxErr\<close> is \<^verbatim>\<open>ctx.Err()\<close>. The result is the query after the call and what
  was sent, or the panic of \<^verbatim>\<open>run\<close>.
\<close>

definition Collect ::
  "stdlib \<Rightarrow> conversions \<Rightarrow> database \<Rightarrow> bool \<Rightarrow> string option \<Rightarrow> Query \<Rightarrow> handle
   \<Rightarrow> (Query \<times> Metric list) outcome" where
  "Collect lib conv db ignoreMissingVals ctxErr q c =
     (case ctxErr of
        Some e \<Rightarrow> Return (q, [InvalidMetric (Wrap (logContext q) e)])
      | None \<Rightarrow>
          (case run db q c of
             Panic msg \<Rightarrow> Panic msg
           | Return (q', Inl err) \<Rightarrow> Return (q', [InvalidMetric err])
           | Return (q', Inr rows) \<Rightarrow>
               Return (q', collectRows lib conv ignoreMissingVals q' rows)))"

section \<open>Environment expansion\<close>

text \<open>
  \<^verbatim>\<open>os.Expand\<close> of the Go standard library and its helpers, on bytes. \<^verbatim>\<open>getShellName\<close>
  is given the text after a dollar sign and returns the name and the number of bytes it
  consumed.
\<close>

definition isShellSpecialVar :: "char \<Rightarrow> bool" where
  "isShellSpecialVar c = (c \<in> set ''*#$@!?-0123456789'')"

definition isAlphaNum :: "char \<Rightarrow> bool" where
  "isAlphaNum c =
     (c = CHR ''_'' \<or> c \<in> set ''0123456789'' \<or> c \<in> set ''abcdefghijklmnopqrstuvwxyz''
      \<or> c \<in> set ''ABCDEFGHIJKLMNOPQRSTUVWXYZ'')"

text \<open>
  The scan to the closing brace, on the text after the opening brace: no closing brace
  eats the two bytes \<^verbatim>\<open>${\<close> (the count is 1), an empty name eats \<^verbatim>\<open>${}\<close> (the count is 2).
\<close>

definition braceName :: "string \<Rightarrow> string \<times> nat" where
  "braceName rest =
     (let name = takeWhile (\<lambda>c. c \<noteq> CHR ''}'') rest
      in if length name = length rest then ([], 1)
         else if name = [] then ([], 2)
         else (name, length name + 2))"

definition getShellName :: "string \<Rightarrow> string \<times> nat" where
  "getShellName s =
     (case s of
        [] \<Rightarrow> ([], 0)
      | c # cs \<Rightarrow>
          if c = CHR ''{''
          then (case cs of
                  d # e # _ \<Rightarrow>
                    if isShellSpecialVar d \<and> e = CHR ''}'' then ([d], 3) else braceName cs
                | _ \<Rightarrow> braceName cs)
          else if isShellSpecialVar c then ([c], 1)
          else (takeWhile isAlphaNum s, length (takeWhile isAlphaNum s)))"

text \<open>
  \<^verbatim>\<open>os.Expand\<close>: a dollar sign that is not the last byte starts a reference; the bytes the
  name consumed are skipped and the mapping's text stands for them; a dollar sign with no
  name after it stays; invalid syntax is eaten.
\<close>

fun Expand :: "(string \<Rightarrow> string) \<Rightarrow> string \<Rightarrow> string" where
  "Expand mapping [] = []"
| "Expand mapping (c # cs) =
     (if c = CHR ''$'' \<and> cs \<noteq> []
      then (if fst (getShellName cs) = [] \<and> snd (getShellName cs) > 0 then []
            else if fst (getShellName cs) = [] then [c]
            else mapping (fst (getShellName cs)))
           @ Expand mapping (drop (snd (getShellName cs)) cs)
      else c # Expand mapping cs)"

text \<open>
  \<^verbatim>\<open>expandEnv\<close>: the environment is a map from names to values (\<^verbatim>\<open>os.LookupEnv\<close>); a name
  that is not found gives the dollar sign and the name.
\<close>

definition lookupFunc :: "(string \<rightharpoonup> string) \<Rightarrow> string \<Rightarrow> string" where
  "lookupFunc environ name =
     (case environ name of Some v \<Rightarrow> v | None \<Rightarrow> ''$'' @ name)"

definition expandEnv :: "(string \<rightharpoonup> string) \<Rightarrow> string \<Rightarrow> string" where
  "expandEnv environ s = Expand (lookupFunc environ) s"

section \<open>Maps as objects\<close>

text \<open>
  A Go map is a reference: two variables may name the same map, and a write through one is
  seen through the other. To state what \<^verbatim>\<open>applyTransformations\<close> writes, the maps live in a
  store, by address; \<open>nextAddr\<close> is the next address that \<^verbatim>\<open>make\<close> hands out.
\<close>

type_synonym addr = nat

record heap =
  maps :: "addr \<rightharpoonup> row"
  nextAddr :: addr

text \<open>The contents of the map at an address; reading a nil map finds no key.\<close>

definition rowAt :: "heap \<Rightarrow> addr \<Rightarrow> row" where
  "rowAt h a = (case maps h a of Some m \<Rightarrow> m | None \<Rightarrow> Map.empty)"

text \<open>\<^verbatim>\<open>make(map[string]any)\<close>: a new, empty map at a new address.\<close>

definition makeMap :: "heap \<Rightarrow> addr \<times> heap" where
  "makeMap h = (nextAddr h, h\<lparr>maps := (maps h)(nextAddr h \<mapsto> Map.empty), nextAddr := Suc (nextAddr h)\<rparr>)"

text \<open>\<^verbatim>\<open>m[k] = v\<close>, on a map that \<^verbatim>\<open>make\<close> returned.\<close>

definition mapAssign :: "heap \<Rightarrow> addr \<Rightarrow> string \<Rightarrow> any \<Rightarrow> heap" where
  "mapAssign h a k v = h\<lparr>maps := (maps h)(a \<mapsto> (rowAt h a)(k \<mapsto> v))\<rparr>"

text \<open>\<^verbatim>\<open>for k, v := range src { dst[k] = v }\<close>: every entry of \<open>src\<close> is written into \<open>dst\<close>.\<close>

definition mapCopy :: "heap \<Rightarrow> addr \<Rightarrow> addr \<Rightarrow> heap" where
  "mapCopy h src dst = h\<lparr>maps := (maps h)(dst \<mapsto> rowAt h dst ++ rowAt h src)\<rparr>"

text \<open>The loops of \<^verbatim>\<open>applyTransformations\<close>, reading and writing maps in the store.\<close>

primrec lagLoopH :: "stdlib \<Rightarrow> addr \<Rightarrow> addr \<Rightarrow> LagCalculation list \<Rightarrow> heap \<Rightarrow> heap" where
  "lagLoopH lib row result [] h = h"
| "lagLoopH lib row result (lagCalc # rest) h =
     (case rowAt h row (SourceColumn lagCalc) of
        Some sourceValue \<Rightarrow>
          (let lagSeconds = calculateLag lib sourceValue (TimestampFormat lagCalc)
           in lagLoopH lib row result rest
                (mapAssign h result (OutputColumn lagCalc)
                   (NullFloat64 lagSeconds (lagSeconds \<noteq> 0))))
      | None \<Rightarrow> lagLoopH lib row result rest h)"

primrec columnFilterLoopH :: "addr \<Rightarrow> addr \<Rightarrow> string list \<Rightarrow> heap \<Rightarrow> heap" where
  "columnFilterLoopH result filtered [] h = h"
| "columnFilterLoopH result filtered (column # rest) h =
     (case rowAt h result column of
        Some v \<Rightarrow> columnFilterLoopH result filtered rest (mapAssign h filtered column v)
      | None \<Rightarrow> columnFilterLoopH result filtered rest h)"

text \<open>
  \<^verbatim>\<open>applyTransformations\<close> on the store: the address of the map it returns, and the store
  after the call.
\<close>

definition applyTransformationsH :: "stdlib \<Rightarrow> heap \<Rightarrow> addr \<Rightarrow> MetricConfig \<Rightarrow> addr \<times> heap" where
  "applyTransformationsH lib h row metric =
     (case makeMap h of
        (result, h1) \<Rightarrow>
          (let h2 = mapCopy h1 row result;
               h3 = lagLoopH lib row result (LagCalculations metric) h2
           in if length (ColumnFilters metric) > 0
              then (case makeMap h3 of
                      (filtered, h4) \<Rightarrow>
                        (filtered, columnFilterLoopH result filtered (ColumnFilters metric) h4))
              else (result, h3)))"

text \<open>
  The loop of \<^verbatim>\<open>Collect\<close> over the metric families, for the scanned row at an address: what
  is handed to the families, and the store afterwards. A family is handed the map that
  \<^verbatim>\<open>applyTransformations\<close> returned, and the event records what that map holds then.
\<close>

primrec familyLoopH :: "stdlib \<Rightarrow> addr \<Rightarrow> MetricConfig list \<Rightarrow> heap \<Rightarrow> Metric list \<times> heap" where
  "familyLoopH lib row [] h = ([], h)"
| "familyLoopH lib row (mf # rest) h =
     (if \<not> shouldIncludeRow lib (rowAt h row) mf then familyLoopH lib row rest h
      else (case applyTransformationsH lib h row mf of
              (transformedRow, h1) \<Rightarrow>
                (case familyLoopH lib row rest h1 of
                   (sent, h2) \<Rightarrow> (FamilyCollect mf (rowAt h1 transformedRow) # sent, h2))))"

text \<open>A store with the scanned row of the end-to-end scenario at address 0.\<close>

definition exampleHeap :: heap where
  "exampleHeap =
     \<lparr>maps = [0 \<mapsto> [''env'' \<mapsto> NullString ''prod'' True,
                      ''updated_at'' \<mapsto> NullString ''then'' True]],
      nextAddr = 1\<rparr>"

section \<open>Example configurations\<close>

text \<open>
  The configuration of the end-to-end scenario: a key column \<^verbatim>\<open>env\<close>, a value column
  \<^verbatim>\<open>lag_seconds\<close> produced by a lag calculation from \<^verbatim>\<open>updated_at\<close>, and a row filter on
  \<^verbatim>\<open>env\<close>.
\<close>

definition lagFamily :: MetricConfig where
  "lagFamily =
     \<lparr>LagCalculations =
        [\<lparr>SourceColumn = ''updated_at'', OutputColumn = ''lag_seconds'', TimestampFormat = []\<rparr>],
      RowFilters = [\<lparr>Column = ''env'', Operator = ''equals'', Value = ''prod'', Values = []\<rparr>],
      KeyLabels = [''env''], ValueColumns = [''lag_seconds''], TimestampValue = [],
      ColumnFilters = []\<rparr>"

text \<open>A family that reads \<^verbatim>\<open>lag_seconds\<close> as a value column and has no lag calculation.\<close>

definition plainFamily :: MetricConfig where
  "plainFamily =
     \<lparr>LagCalculations = [], RowFilters = [], KeyLabels = [''env''],
      ValueColumns = [''lag_seconds''], TimestampValue = [], ColumnFilters = []\<rparr>"

text \<open>A family that labels its metric with the output column of its own lag calculation.\<close>

definition labelledFamily :: MetricConfig where
  "labelledFamily =
     \<lparr>LagCalculations =
        [\<lparr>SourceColumn = ''updated_at'', OutputColumn = ''lag_seconds'', TimestampFormat = []\<rparr>],
      RowFilters = [], KeyLabels = [''lag_seconds''], ValueColumns = [''lag_seconds''],
      TimestampValue = [], ColumnFilters = []\<rparr>"

text \<open>A family that uses \<^verbatim>\<open>env\<close> as a key label and as a value column.\<close>

definition conflictFamily :: MetricConfig where
  "conflictFamily =
     \<lparr>LagCalculations = [], RowFilters = [], KeyLabels = [''env''],
      ValueColumns = [''env''], TimestampValue = [], ColumnFilters = []\<rparr>"

definition exampleConfig :: QueryConfig where
  "exampleConfig = \<lparr>Name = ''q'', QueryText = ''select'', NoPreparedStatement = False\<rparr>"

text \<open>The query that \<^verbatim>\<open>NewQuery\<close> builds for the end-to-end scenario.\<close>

definition exampleQuery :: Query where
  "exampleQuery =
     \<lparr>config = exampleConfig, metricFamilies = [lagFamily],
      columnTypes = [(''updated_at'', columnTypeKey), (''env'', columnTypeKey)],
      logContext = ''job,query=q'', conn = None, stmt = None\<rparr>"

text \<open>The cursor of the end-to-end scenario: a row for \<^verbatim>\<open>prod\<close> and a row for \<^verbatim>\<open>staging\<close>.\<close>

definition exampleRows :: Rows where
  "exampleRows =
     \<lparr>Columns = Inr [''env'', ''updated_at''],
      Data = [[DValue ''prod'', DValue ''then''], [DValue ''staging'', DValue ''then'']],
      RowsErr = None\<rparr>"

text \<open>A database on which every prepare gives statement 7 and every execution the cursor above.\<close>

definition exampleDb :: database where
  "exampleDb =
     \<lparr>QueryContext = (\<lambda>h text. Inr exampleRows),
      PrepareContext = (\<lambda>h text. Inr 7),
      StmtQueryContext = (\<lambda>s. Inr exampleRows)\<rparr>"

text \<open>Conversions that take the text as the string, read one number, and fail on everything else.\<close>

definition exampleConversions :: conversions where
  "exampleConversions =
     \<lparr>toString = (\<lambda>x. Inr x),
      toFloat64 = (\<lambda>x. if x = ''1.5'' then Inr (3 / 2)
                       else Inl ''converting driver.Value type string to a float64''),
      toTime = (\<lambda>x. Inl ''unsupported Scan, storing driver.Value type string into type *time.Time'')\<rparr>"

text \<open>A query with a key column \<^verbatim>\<open>env\<close> and a value column \<^verbatim>\<open>n\<close>, and no transformation.\<close>

definition countFamily :: MetricConfig where
  "countFamily =
     \<lparr>LagCalculations = [], RowFilters = [], KeyLabels = [''env''],
      ValueColumns = [''n''], TimestampValue = [], ColumnFilters = []\<rparr>"

definition countQuery :: Query where
  "countQuery =
     \<lparr>config = exampleConfig, metricFamilies = [countFamily],
      columnTypes = [(''env'', columnTypeKey), (''n'', columnTypeValue)],
      logContext = ''job,query=q'', conn = None, stmt = None\<rparr>"

text \<open>Its cursor: a good row, a row whose number does not convert, and a row with a NULL.\<close>

definition countRows :: Rows where
  "countRows =
     \<lparr>Columns = Inr [''env'', ''n''],
      Data = [[DValue ''prod'', DValue ''1.5''], [DValue ''prod'', DValue ''abc''],
              [DValue ''dev'', DNull]],
      RowsErr = None\<rparr>"

text \<open>A cursor that returns two columns of the same name, as a join may.\<close>

definition joinRows :: Rows where
  "joinRows =
     \<lparr>Columns = Inr [''env'', ''env'', ''updated_at''],
      Data = [[DNull, DValue ''prod'', DValue ''then'']],
      RowsErr = None\<rparr>"

text \<open>A family with the same lag calculation and an allowlist that keeps its output only.\<close>

definition allowFamily :: MetricConfig where
  "allowFamily =
     \<lparr>LagCalculations =
        [\<lparr>SourceColumn = ''updated_at'', OutputColumn = ''lag_seconds'', TimestampFormat = []\<rparr>],
      RowFilters = [], KeyLabels = [], ValueColumns = [''lag_seconds''], TimestampValue = [],
      ColumnFilters = [''lag_seconds'']\<rparr>"

section \<open>Row filters: theorems\<close>

lemma filterLoop_all: "filterLoop lib row fs = (\<forall>f \<in> set fs. applyRowFilter lib row f)"
  by (induction fs) auto

lemma applyRowFilter_absent: "row (Column f) = None \<Longrightarrow> \<not> applyRowFilter lib row f"
  by (simp add: applyRowFilter_def)

lemma applyRowFilter_null:
  "row (Column f) = Some v \<Longrightarrow> isNull v \<Longrightarrow> \<not> applyRowFilter lib row f"
  by (cases v) (auto simp: applyRowFilter_def)

lemma applyOperator_unknown: "Operator f \<notin> set knownOperators \<Longrightarrow> applyOperator s f"
  by (simp add: applyOperator_def knownOperators_def)

lemma applyRowFilter_unknown:
  "row (Column f) = Some v \<Longrightarrow> \<not> isNull v \<Longrightarrow> Operator f \<notin> set knownOperators \<Longrightarrow>
   applyRowFilter lib row f"
  by (cases v) (auto simp: applyRowFilter_def applyOperator_unknown)

text \<open>
  Claim C1, as the code has it. A row is included exactly when every configured row filter
  of the metric family matches it. A filter whose column is absent from the row does not
  match; a filter whose column holds an invalid (NULL) value does not match; a filter whose
  operator is none of the five known ones matches whenever its column is present with a
  value that is not NULL. (The column lookup and the NULL test come before the operator
  switch, so an unknown operator does not match on an absent column or a NULL.)
\<close>

theorem C1_row_filters:
  "(shouldIncludeRow lib row metric \<longleftrightarrow> (\<forall>f \<in> set (RowFilters metric). applyRowFilter lib row f))
   \<and> (row (Column f) = None \<longrightarrow> \<not> applyRowFilter lib row f)
   \<and> (\<forall>v. row (Column f) = Some v \<and> isNull v \<longrightarrow> \<not> applyRowFilter lib row f)
   \<and> (\<forall>v. row (Column f) = Some v \<and> \<not> isNull v \<and> Operator f \<notin> set knownOperators
          \<longrightarrow> applyRowFilter lib row f)"
proof (intro conjI allI impI)
  show "shouldIncludeRow lib row metric \<longleftrightarrow> (\<forall>f \<in> set (RowFilters metric). applyRowFilter lib row f)"
    by (simp add: shouldIncludeRow_def filterLoop_all)
next
  assume "row (Column f) = None"
  then show "\<not> applyRowFilter lib row f" by (rule applyRowFilter_absent)
next
  fix v assume "row (Column f) = Some v \<and> isNull v"
  then show "\<not> applyRowFilter lib row f" using applyRowFilter_null by blast
next
  fix v assume "row (Column f) = Some v \<and> \<not> isNull v \<and> Operator f \<notin> set knownOperators"
  then show "applyRowFilter lib row f" using applyRowFilter_unknown by blast
qed

theorem C1_row_filters_witness:
  "shouldIncludeRow exampleLib [''env'' \<mapsto> NullString ''prod'' True]
     \<lparr>LagCalculations = [],
      RowFilters = [\<lparr>Column = ''env'', Operator = ''equals'', Value = ''prod'', Values = []\<rparr>],
      KeyLabels = [], ValueColumns = [], TimestampValue = [], ColumnFilters = []\<rparr>
   \<and> \<not> applyRowFilter exampleLib Map.empty
         \<lparr>Column = ''env'', Operator = ''equals'', Value = ''prod'', Values = []\<rparr>
   \<and> \<not> applyRowFilter exampleLib [''env'' \<mapsto> NullString [] False]
         \<lparr>Column = ''env'', Operator = ''not_equals'', Value = ''prod'', Values = []\<rparr>
   \<and> applyRowFilter exampleLib [''env'' \<mapsto> NullString ''prod'' True]
         \<lparr>Column = ''env'', Operator = ''matches'', Value = ''staging'', Values = []\<rparr>"
  using
    C1_row_filters [of exampleLib "[''env'' \<mapsto> NullString ''prod'' True]"
      "\<lparr>LagCalculations = [],
        RowFilters = [\<lparr>Column = ''env'', Operator = ''equals'', Value = ''prod'', Values = []\<rparr>],
        KeyLabels = [], ValueColumns = [], TimestampValue = [], ColumnFilters = []\<rparr>"
      "\<lparr>Column = ''env'', Operator = ''matches'', Value = ''staging'', Values = []\<rparr>"]
    C1_row_filters [of exampleLib Map.empty _
      "\<lparr>Column = ''env'', Operator = ''equals'', Value = ''prod'', Values = []\<rparr>"]
    C1_row_filters [of exampleLib "[''env'' \<mapsto> NullString [] False]" _
      "\<lparr>Column = ''env'', Operator = ''not_equals'', Value = ''prod'', Values = []\<rparr>"]
  by (simp add: knownOperators_def applyRowFilter_def applyOperator_def)

text \<open>
  An unknown operator does not always match: on a row without the column the filter
  excludes the row, whatever its operator.
\<close>

theorem C1_unknown_operator_counterexample:
  "''matches'' \<notin> set knownOperators
   \<and> \<not> applyRowFilter exampleLib Map.empty
         \<lparr>Column = ''env'', Operator = ''matches'', Value = ''prod'', Values = []\<rparr>
   \<and> \<not> applyRowFilter exampleLib [''env'' \<mapsto> NullString [] False]
         \<lparr>Column = ''env'', Operator = ''matches'', Value = ''prod'', Values = []\<rparr>"
  by (simp add: knownOperators_def applyRowFilter_def)

section \<open>Lag calculation: theorems\<close>

lemma lagLoop_untouched:
  "(\<forall>lc \<in> set lcs. OutputColumn lc = c \<longrightarrow> row (SourceColumn lc) = None) \<Longrightarrow>
   lagLoop lib row lcs result c = result c"
  by (induction lcs arbitrary: result) (auto split: option.splits simp: Let_def)

text \<open>
  After the loop, the output column of a lag calculation whose source is present holds what
  the last lag calculation with that output column and a present source wrote.
\<close>

lemma lagLoop_written:
  "lc \<in> set lcs \<Longrightarrow> row (SourceColumn lc) = Some v \<Longrightarrow>
   \<exists>lc' \<in> set lcs. \<exists>v'. OutputColumn lc' = OutputColumn lc \<and> row (SourceColumn lc') = Some v'
      \<and> lagLoop lib row lcs result (OutputColumn lc)
          = Some (NullFloat64 (calculateLag lib v' (TimestampFormat lc'))
                    (calculateLag lib v' (TimestampFormat lc') \<noteq> 0))"
proof (induction lcs arbitrary: result lc v)
  case Nil
  then show ?case by simp
next
  case (Cons a lcs)
  let ?c = "OutputColumn lc"
  show ?case
  proof (cases "\<exists>l \<in> set lcs. OutputColumn l = ?c \<and> row (SourceColumn l) \<noteq> None")
    case True
    then obtain l w where l: "l \<in> set lcs" "OutputColumn l = ?c" "row (SourceColumn l) = Some w"
      by auto
    have "\<exists>lc' \<in> set lcs. \<exists>v'. OutputColumn lc' = OutputColumn l \<and> row (SourceColumn lc') = Some v'
      \<and> lagLoop lib row lcs r (OutputColumn l)
          = Some (NullFloat64 (calculateLag lib v' (TimestampFormat lc'))
                    (calculateLag lib v' (TimestampFormat lc') \<noteq> 0))" for r
      using Cons.IH [OF l(1) l(3)] by blast
    then show ?thesis
      using l(2) by (cases "row (SourceColumn a)") (auto simp: Let_def)
  next
    case False
    then have rest: "lagLoop lib row lcs r ?c = r ?c" for r
      by (intro lagLoop_untouched) auto
    from False Cons.prems have "lc = a" by auto
    then show ?thesis
      using Cons.prems rest by (auto simp: Let_def)
  qed
qed

lemma columnFilterLoop_lookup:
  "columnFilterLoop result cs filtered c =
     (if c \<in> set cs \<and> result c \<noteq> None then result c else filtered c)"
  by (induction cs arbitrary: filtered) (auto split: option.splits)

lemma applyTransformations_kept:
  "ColumnFilters metric = [] \<or> c \<in> set (ColumnFilters metric) \<Longrightarrow>
   applyTransformations lib row metric c = lagLoop lib row (LagCalculations metric) row c"
  by (cases "lagLoop lib row (LagCalculations metric) row c")
     (auto simp: applyTransformations_def Let_def columnFilterLoop_lookup)

lemma lagOfString_unparseable:
  "timeParse lib (if format = [] then ''2006-01-02 15:04:05.000 UTC'' else format) s = None \<Longrightarrow>
   lagOfString lib s format = 0"
  by (simp add: lagOfString_def)

text \<open>
  Claim C2. (1) The loop over the lag calculations: for every configured lag calculation
  whose source column is present in the row, the output column holds afterwards a nullable
  float, the lag computed from a present source (that of the last configured calculation
  with this output column), and its validity flag is false exactly when that lag is zero.
  (2) The same holds of the row that the transformation returns, when the column allowlist
  is empty or lists the output column. (3) A source string that does not parse in the
  configured layout (the default layout when none is configured) gives the lag 0, a
  value and no error. (4) A valid native timestamp gives the elapsed seconds since it,
  whatever the parser would do.
\<close>

theorem C2_lag_calculation:
  "(\<forall>lc \<in> set (LagCalculations metric). \<forall>v. row (SourceColumn lc) = Some v \<longrightarrow>
      (\<exists>lc' \<in> set (LagCalculations metric). \<exists>v'.
          OutputColumn lc' = OutputColumn lc \<and> row (SourceColumn lc') = Some v'
          \<and> lagLoop lib row (LagCalculations metric) result (OutputColumn lc)
              = Some (NullFloat64 (calculateLag lib v' (TimestampFormat lc'))
                        (calculateLag lib v' (TimestampFormat lc') \<noteq> 0))))
   \<and> (\<forall>lc \<in> set (LagCalculations metric). \<forall>v. row (SourceColumn lc) = Some v
        \<and> (ColumnFilters metric = [] \<or> OutputColumn lc \<in> set (ColumnFilters metric)) \<longrightarrow>
      (\<exists>lc' \<in> set (LagCalculations metric). \<exists>v'.
          OutputColumn lc' = OutputColumn lc \<and> row (SourceColumn lc') = Some v'
          \<and> applyTransformations lib row metric (OutputColumn lc)
              = Some (NullFloat64 (calculateLag lib v' (TimestampFormat lc'))
                        (calculateLag lib v' (TimestampFormat lc') \<noteq> 0))))
   \<and> (timeParse lib (if format = [] then ''2006-01-02 15:04:05.000 UTC'' else format) s = None
        \<longrightarrow> calculateLag lib (NullString s True) format = 0
            \<and> calculateLag lib (GoString s) format = 0)
   \<and> calculateLag (lib\<lparr>timeParse := parse\<rparr>) (NullTime t True) format = sinceSeconds lib t"
proof (intro conjI ballI allI impI)
  fix lc v
  assume lc: "lc \<in> set (LagCalculations metric)" and v: "row (SourceColumn lc) = Some v"
  show "\<exists>lc' \<in> set (LagCalculations metric). \<exists>v'.
          OutputColumn lc' = OutputColumn lc \<and> row (SourceColumn lc') = Some v'
          \<and> lagLoop lib row (LagCalculations metric) result (OutputColumn lc)
              = Some (NullFloat64 (calculateLag lib v' (TimestampFormat lc'))
                        (calculateLag lib v' (TimestampFormat lc') \<noteq> 0))"
    using lagLoop_written [where row = row and lc = lc and v = v, OF lc v] .
next
  fix lc v
  assume lc: "lc \<in> set (LagCalculations metric)"
    and "row (SourceColumn lc) = Some v
         \<and> (ColumnFilters metric = [] \<or> OutputColumn lc \<in> set (ColumnFilters metric))"
  then have v: "row (SourceColumn lc) = Some v"
    and kept: "ColumnFilters metric = [] \<or> OutputColumn lc \<in> set (ColumnFilters metric)"
    by simp_all
  show "\<exists>lc' \<in> set (LagCalculations metric). \<exists>v'.
          OutputColumn lc' = OutputColumn lc \<and> row (SourceColumn lc') = Some v'
          \<and> applyTransformations lib row metric (OutputColumn lc)
              = Some (NullFloat64 (calculateLag lib v' (TimestampFormat lc'))
                        (calculateLag lib v' (TimestampFormat lc') \<noteq> 0))"
    using lagLoop_written [where lib = lib and result = row and row = row and lc = lc and v = v, OF lc v]
      applyTransformations_kept [where lib = lib and row = row, OF kept]
    by simp
next
  assume "timeParse lib (if format = [] then ''2006-01-02 15:04:05.000 UTC'' else format) s = None"
  then show "calculateLag lib (NullString s True) format = 0"
    by (simp add: calculateLag_def lagOfString_unparseable)
next
  assume "timeParse lib (if format = [] then ''2006-01-02 15:04:05.000 UTC'' else format) s = None"
  then show "calculateLag lib (GoString s) format = 0"
    by (simp add: calculateLag_def lagOfString_unparseable)
next
  show "calculateLag (lib\<lparr>timeParse := parse\<rparr>) (NullTime t True) format = sinceSeconds lib t"
    by (simp add: calculateLag_def)
qed

theorem C2_lag_calculation_witness:
  "applyTransformations exampleLib [''updated_at'' \<mapsto> NullString ''then'' True]
     \<lparr>LagCalculations =
        [\<lparr>SourceColumn = ''updated_at'', OutputColumn = ''lag_seconds'', TimestampFormat = []\<rparr>],
      RowFilters = [], KeyLabels = [], ValueColumns = [''lag_seconds''], TimestampValue = [],
      ColumnFilters = []\<rparr> ''lag_seconds''
     = Some (NullFloat64 30 True)
   \<and> calculateLag exampleLib (NullString ''yesterday'' True) [] = 0
   \<and> calculateLag exampleLib (NullTime 40 True) [] = 60"
  using
    C2_lag_calculation [of
      "\<lparr>LagCalculations =
         [\<lparr>SourceColumn = ''updated_at'', OutputColumn = ''lag_seconds'', TimestampFormat = []\<rparr>],
        RowFilters = [], KeyLabels = [], ValueColumns = [''lag_seconds''], TimestampValue = [],
        ColumnFilters = []\<rparr>"
      "[''updated_at'' \<mapsto> NullString ''then'' True]" exampleLib Map.empty
      "[]" "''yesterday''" "timeParse exampleLib" 40]
  by (simp add: exampleLib_def calculateLag_def lagOfString_def)

section \<open>Query construction: theorems\<close>

text \<open>The loops of \<^verbatim>\<open>NewQuery\<close> make the registrations of the list, in its order.\<close>

lemma registerAll_append:
  "registerAll ctx (xs @ ys) cts =
     (case registerAll ctx xs cts of Inl e \<Rightarrow> Inl e | Inr cts' \<Rightarrow> registerAll ctx ys cts')"
  by (induction xs arbitrary: cts) (auto split: sum.splits)

lemma lagColumnsLoop_eq:
  "lagColumnsLoop ctx lcs acc =
     (case registerAll ctx (map (\<lambda>lagCalc. (SourceColumn lagCalc, columnTypeKey)) lcs) (snd acc) of
        Inl e \<Rightarrow> Inl e
      | Inr cts' \<Rightarrow> Inr (rev (map OutputColumn lcs) @ fst acc, cts'))"
  by (induction lcs arbitrary: acc) (auto split: sum.splits)

lemma filterColumnsLoop_eq:
  "filterColumnsLoop ctx fs cts = registerAll ctx (map (\<lambda>flt. (Column flt, columnTypeKey)) fs) cts"
  by (induction fs arbitrary: cts) (auto split: sum.splits)

lemma keyLabelsLoop_eq:
  "keyLabelsLoop ctx ks cts = registerAll ctx (map (\<lambda>kcol. (kcol, columnTypeKey)) ks) cts"
  by (induction ks arbitrary: cts) (auto split: sum.splits)

lemma valuesLoop_eq:
  "valuesLoop ctx tc vs cts =
     registerAll ctx (map (\<lambda>vcol. (vcol, columnTypeValue)) (filter (\<lambda>vcol. vcol \<notin> set tc) vs)) cts"
  by (induction vs arbitrary: cts) (auto split: sum.splits)

lemma registerFamily_eq:
  "registerFamily ctx mf cts = registerAll ctx (familyRegistrations mf) cts"
  by (auto simp: registerFamily_def familyRegistrations_def registerAll_append lagColumnsLoop_eq
       filterColumnsLoop_eq keyLabelsLoop_eq valuesLoop_eq split: sum.splits)

lemma familiesLoop_eq:
  "familiesLoop ctx mfs cts = registerAll ctx (registrations mfs) cts"
  by (induction mfs arbitrary: cts)
     (auto simp: registrations_def registerFamily_eq registerAll_append split: sum.splits)

lemma registerAll_ok:
  "distinct (map fst cts) \<Longrightarrow> \<forall>r \<in> set regs. map_of (cts @ regs) (fst r) = Some (snd r) \<Longrightarrow>
   \<exists>cts'. registerAll ctx regs cts = Inr cts' \<and> map_of cts' = map_of (cts @ regs)
      \<and> distinct (map fst cts')"
proof (induction regs arbitrary: cts)
  case Nil
  then show ?case by simp
next
  case (Cons r regs)
  obtain c t where r: "r = (c, t)" by (cases r)
  show ?case
  proof (cases "map_of cts c")
    case None
    then have d: "distinct (map fst (cts @ [(c, t)]))"
      using Cons.prems(1) by (auto simp: map_of_eq_None_iff)
    have "\<forall>r \<in> set regs. map_of ((cts @ [(c, t)]) @ regs) (fst r) = Some (snd r)"
      using Cons.prems(2) r by simp
    from Cons.IH [OF d this] show ?thesis
      using None r by (simp add: setColumnType_def)
  next
    case (Some p)
    have "p = t" using Cons.prems(2) Some r by (simp add: map_add_Some_iff)
    have eq: "map_of (cts @ r # regs) = map_of (cts @ regs)"
      using Some r \<open>p = t\<close> by (auto simp: fun_eq_iff map_add_def split: option.splits)
    then have "\<forall>r \<in> set regs. map_of (cts @ regs) (fst r) = Some (snd r)"
      using Cons.prems(2) by simp
    from Cons.IH [OF Cons.prems(1) this] show ?thesis
      using Some r \<open>p = t\<close> eq by (simp add: setColumnType_def)
  qed
qed

lemma registerAll_fail:
  "\<not> (\<forall>r \<in> set regs. map_of (cts @ regs) (fst r) = Some (snd r)) \<Longrightarrow>
   \<exists>c t t'. registerAll ctx regs cts = Inl (ColumnConflict ctx c)
      \<and> map_of (cts @ regs) c = Some t \<and> (c, t') \<in> set regs \<and> t \<noteq> t'"
proof (induction regs arbitrary: cts)
  case Nil
  then show ?case by simp
next
  case (Cons r regs)
  obtain c t where r: "r = (c, t)" by (cases r)
  show ?case
  proof (cases "map_of cts c")
    case None
    have eq: "map_of ((cts @ [(c, t)]) @ regs) = map_of (cts @ r # regs)"
      by (simp add: r)
    have "\<not> (\<forall>r \<in> set regs. map_of ((cts @ [(c, t)]) @ regs) (fst r) = Some (snd r))"
      using Cons.prems r None unfolding eq by (auto simp: map_add_def split: option.splits)
    from Cons.IH [OF this] obtain ca ta t' where
      "registerAll ctx regs (cts @ [(c, t)]) = Inl (ColumnConflict ctx ca)"
      "map_of (cts @ r # regs) ca = Some ta" "(ca, t') \<in> set regs" "ta \<noteq> t'"
      unfolding eq by blast
    then have "registerAll ctx (r # regs) cts = Inl (ColumnConflict ctx ca)
        \<and> map_of (cts @ r # regs) ca = Some ta \<and> (ca, t') \<in> set (r # regs) \<and> ta \<noteq> t'"
      using None r by (simp add: setColumnType_def)
    then show ?thesis by blast
  next
    case (Some p)
    show ?thesis
    proof (cases "p = t")
      case True
      have eq: "map_of (cts @ r # regs) = map_of (cts @ regs)"
        using Some r True by (auto simp: fun_eq_iff map_add_def split: option.splits)
      have rc: "map_of (cts @ regs) (fst r) = Some (snd r)"
        using Some True r by (simp add: map_add_Some_iff)
      have "\<not> (\<forall>x \<in> set (r # regs). map_of (cts @ regs) (fst x) = Some (snd x))"
        using Cons.prems unfolding eq .
      with rc have "\<not> (\<forall>r \<in> set regs. map_of (cts @ regs) (fst r) = Some (snd r))"
        by simp
      from Cons.IH [OF this] obtain ca ta t' where
        "registerAll ctx regs cts = Inl (ColumnConflict ctx ca)"
        "map_of (cts @ regs) ca = Some ta" "(ca, t') \<in> set regs" "ta \<noteq> t'"
        by blast
      then have "registerAll ctx (r # regs) cts = Inl (ColumnConflict ctx ca)
          \<and> map_of (cts @ r # regs) ca = Some ta \<and> (ca, t') \<in> set (r # regs) \<and> ta \<noteq> t'"
        unfolding eq using Some r True by (simp add: setColumnType_def)
      then show ?thesis by blast
    next
      case False
      then show ?thesis
        using Some r by (auto simp: setColumnType_def map_add_def intro!: exI[of _ c])
    qed
  qed
qed

lemma conflicting_iff:
  "conflicting regs \<longleftrightarrow> \<not> (\<forall>r \<in> set regs. map_of ([] @ regs) (fst r) = Some (snd r))"
proof
  assume "conflicting regs"
  then obtain r r' where "r \<in> set regs" "r' \<in> set regs" "fst r = fst r'" "snd r \<noteq> snd r'"
    by (auto simp: conflicting_def)
  then show "\<not> (\<forall>r \<in> set regs. map_of ([] @ regs) (fst r) = Some (snd r))"
    by (metis append_Nil option.inject)
next
  assume "\<not> (\<forall>r \<in> set regs. map_of ([] @ regs) (fst r) = Some (snd r))"
  then obtain r where r: "r \<in> set regs" "map_of regs (fst r) \<noteq> Some (snd r)" by auto
  then obtain t where t: "map_of regs (fst r) = Some t"
    by (metis domIff dom_map_of_conv_image_fst image_eqI option.exhaust)
  then have "(fst r, t) \<in> set regs" by (rule map_of_SomeD)
  then show "conflicting regs"
    using r t unfolding conflicting_def
    by (intro bexI [of _ r] bexI [of _ "(fst r, t)"]) auto
qed

lemma NewQuery_eq:
  "NewQuery trim ctx qc mfs =
     (case registerAll (queryContext trim ctx qc) (registrations mfs) [] of
        Inl err \<Rightarrow> Inl err
      | Inr cts \<Rightarrow>
          Inr \<lparr> config = qc, metricFamilies = mfs, columnTypes = cts,
                logContext = queryContext trim ctx qc, conn = None, stmt = None \<rparr>)"
  by (simp add: NewQuery_def familiesLoop_eq)

lemma NewQuery_conflict:
  assumes "conflicting (registrations mfs)"
  shows "\<exists>c \<in> conflictColumns (registrations mfs).
           NewQuery trim ctx qc mfs = Inl (ColumnConflict (queryContext trim ctx qc) c)"
proof -
  let ?regs = "registrations mfs"
  have "\<not> (\<forall>r \<in> set ?regs. map_of ([] @ ?regs) (fst r) = Some (snd r))"
    using assms conflicting_iff [of "registrations mfs"] by blast
  from registerAll_fail [OF this, of "queryContext trim ctx qc"]
  obtain c t t' where f: "registerAll (queryContext trim ctx qc) ?regs [] =
      Inl (ColumnConflict (queryContext trim ctx qc) c)"
    and m: "map_of ?regs c = Some t" and r: "(c, t') \<in> set ?regs" and ne: "t \<noteq> t'"
    by auto
  from m have "(c, t) \<in> set ?regs" by (rule map_of_SomeD)
  with r ne have "c \<in> conflictColumns ?regs"
    unfolding conflictColumns_def by force
  with f show ?thesis by (auto simp: NewQuery_eq)
qed

lemma NewQuery_success:
  assumes "\<not> conflicting (registrations mfs)"
  shows "\<exists>q. NewQuery trim ctx qc mfs = Inr q
           \<and> map_of (columnTypes q) = map_of (registrations mfs)
           \<and> distinct (map fst (columnTypes q))
           \<and> logContext q = queryContext trim ctx qc \<and> conn q = None \<and> stmt q = None"
proof -
  let ?regs = "registrations mfs"
  have "\<forall>r \<in> set ?regs. map_of ([] @ ?regs) (fst r) = Some (snd r)"
    using assms conflicting_iff [of "registrations mfs"] by blast
  from registerAll_ok [OF _ this, of "queryContext trim ctx qc"]
  show ?thesis by (auto simp: NewQuery_eq)
qed

lemma NewQuery_Inr_not_conflicting:
  assumes "NewQuery trim ctx qc mfs = Inr q"
  shows "\<not> conflicting (registrations mfs)"
proof
  assume "conflicting (registrations mfs)"
  from NewQuery_conflict [OF this, of trim ctx qc] show False
    using assms by auto
qed

text \<open>
  Claim C4. When the registrations that the metric families make (lag sources, row-filter
  columns and key labels as keys, value columns that no lag calculation of their family
  produces as values, the timestamp column as time) hold one column with two different
  roles, \<^verbatim>\<open>NewQuery\<close> fails with the role-conflict error that carries the query's log
  context and names a column registered with two different roles (the first conflict met).
  When no column is registered with two different roles, \<^verbatim>\<open>NewQuery\<close> succeeds and every
  column has the role of its first registration.
\<close>

theorem C4_role_conflict:
  "(conflicting (registrations mfs) \<longrightarrow>
      (\<exists>c \<in> conflictColumns (registrations mfs).
          NewQuery trim ctx qc mfs = Inl (ColumnConflict (queryContext trim ctx qc) c)))
   \<and> (\<not> conflicting (registrations mfs) \<longrightarrow>
      (\<exists>q. NewQuery trim ctx qc mfs = Inr q
          \<and> map_of (columnTypes q) = map_of (registrations mfs)
          \<and> (\<forall>r \<in> set (registrations mfs). map_of (columnTypes q) (fst r) = Some (snd r))))"
proof (intro conjI impI)
  assume "conflicting (registrations mfs)"
  then show "\<exists>c \<in> conflictColumns (registrations mfs).
          NewQuery trim ctx qc mfs = Inl (ColumnConflict (queryContext trim ctx qc) c)"
    by (rule NewQuery_conflict)
next
  assume ok: "\<not> conflicting (registrations mfs)"
  then obtain q where q: "NewQuery trim ctx qc mfs = Inr q"
    "map_of (columnTypes q) = map_of (registrations mfs)"
    using NewQuery_success [of mfs trim ctx qc] by blast
  have "\<forall>r \<in> set (registrations mfs). map_of (registrations mfs) (fst r) = Some (snd r)"
    using ok by (simp add: conflicting_iff)
  with q show "\<exists>q. NewQuery trim ctx qc mfs = Inr q
          \<and> map_of (columnTypes q) = map_of (registrations mfs)
          \<and> (\<forall>r \<in> set (registrations mfs). map_of (columnTypes q) (fst r) = Some (snd r))"
    by auto
qed

theorem C4_role_conflict_witness:
  "NewQuery id ''job'' exampleConfig [conflictFamily]
     = Inl (ColumnConflict ''job,query=q'' ''env'')
   \<and> NewQuery id ''job'' exampleConfig [lagFamily] = Inr exampleQuery"
proof -
  have c: "conflicting (registrations [conflictFamily])"
    by (simp add: conflicting_def registrations_def familyRegistrations_def conflictFamily_def)
  have cc: "conflictColumns (registrations [conflictFamily]) = {''env''}"
    by (auto simp: conflictColumns_def registrations_def familyRegistrations_def
          conflictFamily_def)
  have n: "\<not> conflicting (registrations [lagFamily])"
    by (simp add: conflicting_def registrations_def familyRegistrations_def lagFamily_def)
  have "NewQuery id ''job'' exampleConfig [conflictFamily]
          = Inl (ColumnConflict ''job,query=q'' ''env'')"
    using C4_role_conflict [of "[conflictFamily]" id "''job''" exampleConfig] c cc
    by (simp add: queryContext_def exampleConfig_def)
  moreover have "\<exists>q. NewQuery id ''job'' exampleConfig [lagFamily] = Inr q
      \<and> map_of (columnTypes q) = map_of (registrations [lagFamily])"
    using C4_role_conflict [of "[lagFamily]" id "''job''" exampleConfig] n by blast
  moreover have "NewQuery id ''job'' exampleConfig [lagFamily] = Inr exampleQuery"
    by (simp add: NewQuery_def registerFamily_def setColumnType_def lagFamily_def
          exampleQuery_def queryContext_def exampleConfig_def)
  ultimately show ?thesis by simp
qed

section \<open>Execution: theorems\<close>

lemma run_other_handle:
  "conn q = Some h \<Longrightarrow> c \<noteq> h \<Longrightarrow>
   run db q c = Panic (''['' @ logContext q @ ''] Expecting to always run on the same database handle'')"
  by (simp add: run_def)

lemma run_same_handle:
  "conn q = None \<or> conn q = Some c \<Longrightarrow>
   \<exists>q' r. run db q c = Return (q', r) \<and> (conn q' = None \<or> conn q' = Some c)
      \<and> (conn q = Some c \<longrightarrow> conn q' = Some c)
      \<and> columnTypes q' = columnTypes q \<and> logContext q' = logContext q
      \<and> metricFamilies q' = metricFamilies q \<and> config q' = config q"
  by (auto simp: run_def split: option.splits sum.splits)

lemma run_prepares:
  "\<not> NoPreparedStatement (config q) \<Longrightarrow> conn q = None \<Longrightarrow> stmt q = None \<Longrightarrow>
   PrepareContext db c (QueryText (config q)) = Inr s \<Longrightarrow>
   run db q c = Return (q\<lparr>conn := Some c, stmt := Some s\<rparr>,
                        wrapRows (logContext q) (StmtQueryContext db s))"
  by (simp add: run_def)

lemma runs_same_handle:
  "conn q = None \<or> conn q = Some h \<Longrightarrow> \<forall>call \<in> set calls. snd call = h \<Longrightarrow>
   \<exists>q'. runs q calls = Return q' \<and> (conn q' = None \<or> conn q' = Some h)
      \<and> (conn q = Some h \<longrightarrow> conn q' = Some h)"
proof (induction calls arbitrary: q)
  case Nil
  then show ?case by simp
next
  case (Cons call calls)
  have h: "snd call = h" using Cons.prems(2) by simp
  from run_same_handle [of q h "fst call"] Cons.prems(1)
  obtain q1 r where r: "run (fst call) q h = Return (q1, r)"
    and c1: "conn q1 = None \<or> conn q1 = Some h" and k: "conn q = Some h \<longrightarrow> conn q1 = Some h"
    by blast
  have "\<forall>call \<in> set calls. snd call = h" using Cons.prems(2) by simp
  from Cons.IH [OF c1 this] obtain q' where
    "runs q1 calls = Return q'" "conn q' = None \<or> conn q' = Some h"
    "conn q1 = Some h \<longrightarrow> conn q' = Some h"
    by blast
  then show ?case using r h k by simp
qed

text \<open>
  Claim C5. Take a query in prepared-statement mode whose statement has been prepared on
  the handle \<open>h\<close> by its first successful call of \<^verbatim>\<open>run\<close>. (1) That call stores the handle and
  the statement. (2) From then on, a call on any other handle panics: it does not return,
  neither rows nor an error. (3) Calls on the same handle \<open>h\<close>, however many and whatever
  the database answers, never panic, and the query stays bound to \<open>h\<close>.
\<close>

theorem C5_same_handle:
  assumes "\<not> NoPreparedStatement (config q)" and "conn q = None" and "stmt q = None"
    and "PrepareContext db h (QueryText (config q)) = Inr s"
  shows "\<exists>q1 r. run db q h = Return (q1, r) \<and> conn q1 = Some h \<and> stmt q1 = Some s
     \<and> (\<forall>db' c. c \<noteq> h \<longrightarrow> (\<exists>msg. run db' q1 c = Panic msg))
     \<and> (\<forall>calls. (\<forall>call \<in> set calls. snd call = h) \<longrightarrow>
          (\<exists>q2. runs q1 calls = Return q2 \<and> conn q2 = Some h
             \<and> (\<forall>db' c. c \<noteq> h \<longrightarrow> (\<exists>msg. run db' q2 c = Panic msg))))"
proof -
  let ?q1 = "q\<lparr>conn := Some h, stmt := Some s\<rparr>"
  have r: "run db q h = Return (?q1, wrapRows (logContext q) (StmtQueryContext db s))"
    using assms by (rule run_prepares)
  have p1: "\<exists>msg. run db' ?q1 c = Panic msg" if "c \<noteq> h" for db' c
    using run_other_handle [of ?q1 h c db'] that by simp
  have p2: "\<exists>q2. runs ?q1 calls = Return q2 \<and> conn q2 = Some h
             \<and> (\<forall>db' c. c \<noteq> h \<longrightarrow> (\<exists>msg. run db' q2 c = Panic msg))"
    if "\<forall>call \<in> set calls. snd call = h" for calls
  proof -
    from runs_same_handle [of ?q1 h calls] that
    obtain q2 where q2: "runs ?q1 calls = Return q2" "conn q2 = Some h" by auto
    have "\<exists>msg. run db' q2 c = Panic msg" if "c \<noteq> h" for db' c
      using run_other_handle [OF q2(2) that] by blast
    with q2 show ?thesis by blast
  qed
  show ?thesis
    using r p1 p2 by (intro exI [of _ ?q1] exI [of _ "wrapRows (logContext q) (StmtQueryContext db s)"]) simp
qed

theorem C5_same_handle_witness:
  "run exampleDb exampleQuery 1 = Return (exampleQuery\<lparr>conn := Some 1, stmt := Some 7\<rparr>, Inr exampleRows)
   \<and> run exampleDb (exampleQuery\<lparr>conn := Some 1, stmt := Some 7\<rparr>) 2
       = Panic ''[job,query=q] Expecting to always run on the same database handle''
   \<and> runs (exampleQuery\<lparr>conn := Some 1, stmt := Some 7\<rparr>) [(exampleDb, 1), (exampleDb, 1)]
       = Return (exampleQuery\<lparr>conn := Some 1, stmt := Some 7\<rparr>)"
proof -
  have a: "\<not> NoPreparedStatement (config exampleQuery)" "conn exampleQuery = None"
    "stmt exampleQuery = None"
    "PrepareContext exampleDb 1 (QueryText (config exampleQuery)) = Inr 7"
    by (simp_all add: exampleQuery_def exampleConfig_def exampleDb_def)
  from C5_same_handle [OF a] show ?thesis
    by (simp add: run_def exampleQuery_def exampleConfig_def exampleDb_def wrapRows_def)
qed

lemma destLoop_fst:
  "fst (destLoop cts cols acc) = fst acc @ map (slotFor cts) cols"
  by (induction cols arbitrary: acc)
     (auto simp: slotFor_def split: option.splits columnType.splits)

lemma destLoop_snd_set:
  "set (snd (destLoop cts cols acc)) = set (snd acc) \<union> (set cols \<inter> fst ` set cts)"
proof (induction cols arbitrary: acc)
  case Nil
  then show ?case by simp
next
  case (Cons c cols)
  show ?case
  proof (cases "map_of cts c")
    case None
    then have "c \<notin> fst ` set cts" by (simp add: map_of_eq_None_iff)
    then show ?thesis using None Cons.IH by auto
  next
    case (Some t)
    then have "c \<in> fst ` set cts" by (metis map_of_eq_None_iff option.distinct(1))
    then show ?thesis using Some Cons.IH by (cases t) auto
  qed
qed

lemma destLoop_snd_distinct:
  "distinct (snd acc) \<Longrightarrow> distinct (snd (destLoop cts cols acc))"
  by (induction cols arbitrary: acc) (auto split: option.splits columnType.splits)

lemma have_complete:
  assumes d: "distinct (map fst cts)" and h: "distinct have" and s: "set have = set cols \<inter> fst ` set cts"
  shows "length have = length cts \<longleftrightarrow> fst ` set cts \<subseteq> set cols"
proof -
  have l1: "length have = card (set have)" using h by (simp add: distinct_card)
  have l2: "length cts = card (fst ` set cts)"
    using d by (metis distinct_card length_map set_map)
  have sub: "set have \<subseteq> fst ` set cts" using s by auto
  show ?thesis
  proof
    assume "length have = length cts"
    then have "card (set have) = card (fst ` set cts)" using l1 l2 by simp
    then have "set have = fst ` set cts"
      using sub by (simp add: card_subset_eq)
    then show "fst ` set cts \<subseteq> set cols" using s by auto
  next
    assume "fst ` set cts \<subseteq> set cols"
    then have "set have = fst ` set cts" using s by auto
    then show "length have = length cts" using l1 l2 by simp
  qed
qed

lemma scanDest_eq:
  assumes d: "distinct (map fst (columnTypes q))" and c: "Columns rows = Inr cols"
  shows "scanDest q rows =
     (if fst ` set (columnTypes q) \<subseteq> set cols
      then Inr (map (slotFor (columnTypes q)) cols)
      else Inl (MissingValues (logContext q)
                 (filter (\<lambda>c. c \<notin> set cols) (map fst (columnTypes q)))))"
proof -
  let ?cts = "columnTypes q"
  obtain dest "have" where dl: "destLoop ?cts cols ([], []) = (dest, have)"
    by (cases "destLoop ?cts cols ([], [])")
  have dest: "dest = map (slotFor ?cts) cols"
    using destLoop_fst [of ?cts cols "([], [])"] dl by simp
  have hs: "set have = set cols \<inter> fst ` set ?cts"
    using destLoop_snd_set [of ?cts cols "([], [])"] dl by simp
  have hd: "distinct have"
    using destLoop_snd_distinct [of "([], [])" ?cts cols] dl by simp
  have len: "length have = length ?cts \<longleftrightarrow> fst ` set ?cts \<subseteq> set cols"
    using have_complete [OF d hd hs] .
  have miss: "filter (\<lambda>c. c \<notin> set have) (map fst ?cts) = filter (\<lambda>c. c \<notin> set cols) (map fst ?cts)"
    using hs by (intro filter_cong) auto
  show ?thesis
    using c dl dest len miss by (simp add: scanDest_def)
qed

lemma run_Return_fields:
  "run db q0 c = Return (q, r) \<Longrightarrow>
   columnTypes q = columnTypes q0 \<and> logContext q = logContext q0
   \<and> metricFamilies q = metricFamilies q0"
  by (auto simp: run_def split: if_splits option.splits sum.splits)

text \<open>
  Claim C3. The role map of a query is a map: it has one entry per column. When the cursor
  returns its columns and some column of the role map is not among them, \<^verbatim>\<open>scanDest\<close> fails
  with the error that lists exactly the columns of the role map that the cursor does not
  return. After that failure \<^verbatim>\<open>Collect\<close> sends nothing in the ignore-missing-values mode:
  no invalid metric, and no row is scanned or handed to a metric family. (Without the mode
  it sends that one error as an invalid metric.)
\<close>

theorem C3_missing_columns:
  assumes "distinct (map fst (columnTypes q))" and "Columns rows = Inr cols"
    and "\<exists>c \<in> fst ` set (columnTypes q). c \<notin> set cols"
  shows "\<exists>missing. scanDest q rows = Inl (MissingValues (logContext q) missing)
      \<and> set missing = {c \<in> fst ` set (columnTypes q). c \<notin> set cols}
      \<and> collectRows lib conv True q rows = []
      \<and> collectRows lib conv False q rows = [InvalidMetric (MissingValues (logContext q) missing)]
      \<and> (\<forall>db q0 c. run db q0 c = Return (q, Inr rows) \<longrightarrow>
            Collect lib conv db True None q0 c = Return (q, []))"
proof -
  let ?missing = "filter (\<lambda>c. c \<notin> set cols) (map fst (columnTypes q))"
  have "\<not> fst ` set (columnTypes q) \<subseteq> set cols" using assms(3) by auto
  then have sd: "scanDest q rows = Inl (MissingValues (logContext q) ?missing)"
    using scanDest_eq [OF assms(1,2)] by simp
  have m: "set ?missing = {c \<in> fst ` set (columnTypes q). c \<notin> set cols}" by auto
  have c1: "collectRows lib conv True q rows = []"
    and c2: "collectRows lib conv False q rows = [InvalidMetric (MissingValues (logContext q) ?missing)]"
    using sd by (simp_all add: collectRows_def)
  have c3: "Collect lib conv db True None q0 c = Return (q, [])"
    if "run db q0 c = Return (q, Inr rows)" for db q0 c
    using that c1 by (simp add: Collect_def)
  show ?thesis
    using sd m c1 c2 c3 by blast
qed

theorem C3_missing_columns_witness:
  "scanDest exampleQuery (exampleRows\<lparr>Columns := Inr [''env'']\<rparr>)
     = Inl (MissingValues ''job,query=q'' [''updated_at''])
   \<and> collectRows exampleLib exampleConversions True exampleQuery
        (exampleRows\<lparr>Columns := Inr [''env'']\<rparr>) = []
   \<and> collectRows exampleLib exampleConversions False exampleQuery
        (exampleRows\<lparr>Columns := Inr [''env'']\<rparr>)
       = [InvalidMetric (MissingValues ''job,query=q'' [''updated_at''])]"
proof -
  have a: "distinct (map fst (columnTypes exampleQuery))"
    "Columns (exampleRows\<lparr>Columns := Inr [''env'']\<rparr>) = Inr [''env'']"
    "\<exists>c \<in> fst ` set (columnTypes exampleQuery). c \<notin> set [''env'']"
    by (simp_all add: exampleQuery_def)
  from C3_missing_columns [OF a, of exampleLib exampleConversions] show ?thesis
    by (simp add: scanDest_def exampleQuery_def)
qed

lemma familyRegistrations_columns:
  "fst ` set (familyRegistrations mf) =
     SourceColumn ` set (LagCalculations mf) \<union> Column ` set (RowFilters mf)
     \<union> set (KeyLabels mf)
     \<union> (set (ValueColumns mf) - OutputColumn ` set (LagCalculations mf))
     \<union> (if TimestampValue mf \<noteq> [] then {TimestampValue mf} else {})"
proof -
  have v: "{x \<in> set (ValueColumns mf). x \<notin> OutputColumn ` set (LagCalculations mf)}
      = set (ValueColumns mf) - OutputColumn ` set (LagCalculations mf)"
    by blast
  show ?thesis
    unfolding familyRegistrations_def
    by (simp add: image_Un image_image v Un_assoc)
qed

lemma registrations_columns:
  "fst ` set (registrations mfs) = (\<Union>mf \<in> set mfs. fst ` set (familyRegistrations mf))"
  by (simp add: registrations_def image_UN)

lemma registrations_member:
  "c \<in> fst ` set (registrations mfs) \<longleftrightarrow>
     (\<exists>mf \<in> set mfs.
           c \<in> SourceColumn ` set (LagCalculations mf)
         \<or> c \<in> Column ` set (RowFilters mf)
         \<or> c \<in> set (KeyLabels mf)
         \<or> (c \<in> set (ValueColumns mf) \<and> c \<notin> OutputColumn ` set (LagCalculations mf))
         \<or> (TimestampValue mf \<noteq> [] \<and> c = TimestampValue mf))"
  unfolding registrations_columns familyRegistrations_columns
  by (simp only: UN_iff Un_iff Diff_iff) (auto split: if_splits)

text \<open>
  Claim C7, as the code has it. The map of transformed columns is built anew for each
  metric family and is consulted by the loop over that family's value columns only. So a
  column is registered in the role map of a query that \<^verbatim>\<open>NewQuery\<close> builds exactly when some
  metric family has it as the source column of a lag calculation, as the column of a row
  filter, as a key label, as its timestamp column, or as a value column that none of that
  family's own lag calculations produces. A value column that a lag calculation of the same
  family produces is not registered on that account.
\<close>

theorem C7_transformed_columns:
  assumes "NewQuery trim ctx qc mfs = Inr q"
  shows "c \<in> fst ` set (columnTypes q) \<longleftrightarrow>
     (\<exists>mf \<in> set mfs.
           c \<in> SourceColumn ` set (LagCalculations mf)
         \<or> c \<in> Column ` set (RowFilters mf)
         \<or> c \<in> set (KeyLabels mf)
         \<or> (c \<in> set (ValueColumns mf) \<and> c \<notin> OutputColumn ` set (LagCalculations mf))
         \<or> (TimestampValue mf \<noteq> [] \<and> c = TimestampValue mf))"
proof -
  have "\<not> conflicting (registrations mfs)"
    using assms by (rule NewQuery_Inr_not_conflicting)
  from NewQuery_success [OF this, of trim ctx qc] assms
  have "map_of (columnTypes q) = map_of (registrations mfs)" by auto
  then have "dom (map_of (columnTypes q)) = dom (map_of (registrations mfs))" by simp
  then have "fst ` set (columnTypes q) = fst ` set (registrations mfs)"
    by (simp only: dom_map_of_conv_image_fst)
  then show ?thesis
    by (simp only: registrations_member)
qed

theorem C7_transformed_columns_witness:
  "NewQuery id ''job'' exampleConfig [lagFamily] = Inr exampleQuery
   \<and> ''lag_seconds'' \<in> set (ValueColumns lagFamily)
   \<and> ''lag_seconds'' \<in> OutputColumn ` set (LagCalculations lagFamily)
   \<and> ''lag_seconds'' \<notin> fst ` set (columnTypes exampleQuery)"
proof -
  have q: "NewQuery id ''job'' exampleConfig [lagFamily] = Inr exampleQuery"
    by (simp add: NewQuery_def registerFamily_def setColumnType_def lagFamily_def
          exampleQuery_def queryContext_def exampleConfig_def)
  show ?thesis
    using q C7_transformed_columns [OF q, of "''lag_seconds''"]
    by (simp add: lagFamily_def)
qed

text \<open>
  An output column of a lag calculation is registered as a required column when another
  family of the query lists it as a value column, and when the family itself uses it as a
  key label.
\<close>

theorem C7_output_column_registered_counterexample:
  "''lag_seconds'' \<in> OutputColumn ` set (LagCalculations lagFamily)
   \<and> map_sum id columnTypes (NewQuery id ''job'' exampleConfig [lagFamily, plainFamily])
       = Inr [(''updated_at'', columnTypeKey), (''env'', columnTypeKey),
              (''lag_seconds'', columnTypeValue)]
   \<and> ''lag_seconds'' \<in> OutputColumn ` set (LagCalculations labelledFamily)
   \<and> map_sum id columnTypes (NewQuery id ''job'' exampleConfig [labelledFamily])
       = Inr [(''updated_at'', columnTypeKey), (''lag_seconds'', columnTypeKey)]"
  by (simp add: NewQuery_def registerFamily_def setColumnType_def lagFamily_def
        plainFamily_def labelledFamily_def)

section \<open>Scanning: theorems\<close>

lemma scanLoop_nth:
  "scanLoop conv ps = Inr vs \<Longrightarrow>
   length vs = length ps \<and> (\<forall>i < length ps. scanSlot conv (fst (ps ! i)) (snd (ps ! i)) = Inr (vs ! i))"
proof (induction ps arbitrary: vs)
  case Nil
  then show ?case by simp
next
  case (Cons p ps)
  from Cons.prems obtain v vs' where v: "scanSlot conv (fst p) (snd p) = Inr v"
    and vs': "scanLoop conv ps = Inr vs'" and vs: "vs = v # vs'"
    by (auto split: sum.splits)
  from Cons.IH [OF vs'] have ih: "length vs' = length ps"
    "\<forall>i < length ps. scanSlot conv (fst (ps ! i)) (snd (ps ! i)) = Inr (vs' ! i)"
    by simp_all
  show ?case
  proof (intro conjI allI impI)
    show "length vs = length (p # ps)" using ih(1) vs by simp
  next
    fix i assume "i < length (p # ps)"
    then show "scanSlot conv (fst ((p # ps) ! i)) (snd ((p # ps) ! i)) = Inr (vs ! i)"
      using v vs ih(2) by (cases i) simp_all
  qed
qed

lemma pickLoop_append:
  "pickLoop cts (xs @ ys) result = pickLoop cts ys (pickLoop cts xs result)"
  by (induction xs arbitrary: result) (auto split: option.splits columnType.splits)

lemma pickLoop_other:
  "c \<notin> fst ` set ps \<Longrightarrow> pickLoop cts ps result c = result c"
  by (induction ps arbitrary: result) (auto split: option.splits columnType.splits)

lemma pickLoop_last:
  assumes "map_of cts c \<noteq> None" and "c \<notin> fst ` set later"
  shows "pickLoop cts (front @ (c, v) # later) result c = Some v"
proof -
  have "pickLoop cts (front @ (c, v) # later) result c
        = pickLoop cts later (pickLoop cts [(c, v)] (pickLoop cts front result)) c"
    using pickLoop_append [of cts front "(c, v) # later" result]
      pickLoop_append [of cts "[(c, v)]" later "pickLoop cts front result"] by simp
  also have "\<dots> = pickLoop cts [(c, v)] (pickLoop cts front result) c"
    using assms(2) by (rule pickLoop_other)
  also have "\<dots> = Some v"
    using assms(1) by (auto split: option.splits columnType.splits)
  finally show ?thesis .
qed

lemma zip_split_at:
  assumes "i < length xs" and "length ys = length xs"
  shows "zip xs ys = zip (take i xs) (take i ys) @ (xs ! i, ys ! i) # zip (drop (Suc i) xs) (drop (Suc i) ys)"
proof -
  have "zip xs ys = zip (take i xs @ xs ! i # drop (Suc i) xs) (take i ys @ ys ! i # drop (Suc i) ys)"
    using assms by (simp add: id_take_nth_drop [symmetric])
  also have "\<dots> = zip (take i xs) (take i ys) @ (xs ! i, ys ! i) # zip (drop (Suc i) xs) (drop (Suc i) ys)"
    using assms by (subst zip_append) simp_all
  finally show ?thesis .
qed

lemma scanRow_null:
  assumes cols: "Columns rows = Inr cols"
    and sd: "scanDest q rows = Inr dest"
    and sr: "scanRow conv q rows dest values = Inr row"
    and i: "i < length cols" and null: "values ! i = DNull"
    and role: "map_of (columnTypes q) (cols ! i) = Some t"
    and last: "\<forall>j < length cols. i < j \<longrightarrow> cols ! j \<noteq> cols ! i"
  shows "row (cols ! i) = Some (nullOf t)"
proof -
  let ?cts = "columnTypes q"
  have dest: "dest = map (slotFor ?cts) cols"
    using sd cols destLoop_fst [of ?cts cols "([], [])"]
    by (auto simp: scanDest_def split: prod.splits if_splits)
  from sr cols obtain vals where scan: "rowsScan conv dest values = Inr vals"
    and row: "row = pickLoop ?cts (zip cols vals) Map.empty"
    by (auto simp: scanRow_def split: sum.splits)
  from scan have len: "length dest = length values"
    and loop: "scanLoop conv (zip dest values) = Inr vals"
    by (auto simp: rowsScan_def split: if_splits)
  have lv: "length values = length cols" using len dest by simp
  from scanLoop_nth [OF loop] have lvals: "length vals = length cols"
    and nth: "\<forall>k < length cols. scanSlot conv (dest ! k) (values ! k) = Inr (vals ! k)"
    using len lv by simp_all
  have "scanSlot conv (slotFor ?cts (cols ! i)) DNull = Inr (vals ! i)"
    using nth [rule_format, OF i] null dest i by simp
  then have vi: "vals ! i = nullOf t"
    using role by (cases t) (simp_all add: scanSlot_def slotFor_def nullOf_def)
  have notin: "cols ! i \<notin> fst ` set (zip (drop (Suc i) cols) (drop (Suc i) vals))"
  proof
    assume "cols ! i \<in> fst ` set (zip (drop (Suc i) cols) (drop (Suc i) vals))"
    then have "cols ! i \<in> set (drop (Suc i) cols)"
      by (auto dest: set_zip_leftD)
    then obtain k where "k < length (drop (Suc i) cols)" "drop (Suc i) cols ! k = cols ! i"
      by (auto simp: in_set_conv_nth)
    then have "Suc i + k < length cols" "cols ! (Suc i + k) = cols ! i" by auto
    with last show False by auto
  qed
  have "row (cols ! i) = Some (vals ! i)"
    unfolding row zip_split_at [OF i lvals]
    using role notin by (intro pickLoop_last) simp_all
  with vi show ?thesis by simp
qed

text \<open>
  Claim C6, as the code has it. Take a row that scans without error into the destinations
  of \<^verbatim>\<open>scanDest\<close>, and a returned column with a role (key, value or time) for which the
  driver delivers NULL, and whose name no later column of the result set repeats. Then the
  row has an entry for the column, and the entry is the nullable value of its role with
  the validity flag false. (The result map is keyed by the column name: when the result
  set repeats a name, the entry is that of the last column of the name.)
\<close>

theorem C6_null_preserved:
  assumes "Columns rows = Inr cols"
    and "scanDest q rows = Inr dest"
    and "scanRow conv q rows dest values = Inr row"
    and "i < length cols" and "values ! i = DNull"
    and "map_of (columnTypes q) (cols ! i) = Some t"
    and "\<forall>j < length cols. i < j \<longrightarrow> cols ! j \<noteq> cols ! i"
  shows "row (cols ! i) = Some (nullOf t) \<and> isNull (nullOf t)"
proof -
  have "row (cols ! i) = Some (nullOf t)"
    using assms by (rule scanRow_null)
  moreover have "isNull (nullOf t)"
    by (cases t) (simp_all add: nullOf_def)
  ultimately show ?thesis by simp
qed

theorem C6_null_preserved_witness:
  "scanDest countQuery countRows = Inr [NullStringSlot, NullFloat64Slot]
   \<and> scanRow exampleConversions countQuery countRows [NullStringSlot, NullFloat64Slot]
        [DValue ''dev'', DNull]
       = Inr [''env'' \<mapsto> NullString ''dev'' True, ''n'' \<mapsto> NullFloat64 0 False]"
proof -
  let ?row = "[''env'' \<mapsto> NullString ''dev'' True, ''n'' \<mapsto> NullFloat64 0 False]"
  have a: "Columns countRows = Inr [''env'', ''n'']"
    by (simp add: countRows_def)
  have b: "scanDest countQuery countRows = Inr [NullStringSlot, NullFloat64Slot]"
    by (simp add: scanDest_def countQuery_def countRows_def)
  have c: "scanRow exampleConversions countQuery countRows [NullStringSlot, NullFloat64Slot]
        [DValue ''dev'', DNull] = Inr ?row"
    by (simp add: scanRow_def rowsScan_def scanSlot_def countQuery_def countRows_def
          exampleConversions_def)
  have d: "(1::nat) < length [''env'', ''n'']" "[DValue ''dev'', DNull] ! 1 = DNull"
    "map_of (columnTypes countQuery) ([''env'', ''n''] ! 1) = Some columnTypeValue"
    "\<forall>j < length [''env'', ''n'']. (1::nat) < j \<longrightarrow> [''env'', ''n''] ! j \<noteq> [''env'', ''n''] ! 1"
    by (simp_all add: countQuery_def)
  from C6_null_preserved [OF a b c d] b c show ?thesis by simp
qed

text \<open>
  When the result set has two columns of one name, the first NULL and the second not, the
  entry of the row is the valid value of the second.
\<close>

theorem C6_repeated_column_counterexample:
  "scanDest exampleQuery joinRows = Inr [NullStringSlot, NullStringSlot, NullStringSlot]
   \<and> map_sum id (\<lambda>row. row ''env'')
        (scanRow exampleConversions exampleQuery joinRows
           [NullStringSlot, NullStringSlot, NullStringSlot]
           [DNull, DValue ''prod'', DValue ''then''])
       = Inr (Some (NullString ''prod'' True))"
  by (simp add: scanDest_def scanRow_def rowsScan_def scanSlot_def exampleQuery_def joinRows_def
        exampleConversions_def)

lemma scanRow_Data: "scanRow conv q (rows\<lparr>Data := d\<rparr>) dest values = scanRow conv q rows dest values"
  by (simp add: scanRow_def)

lemma rowLoop_append:
  "rowLoop lib conv q rows dest (xs @ ys) = rowLoop lib conv q rows dest xs @ rowLoop lib conv q rows dest ys"
  by (induction xs) (auto split: sum.splits)

lemma rowLoop_Data:
  "rowLoop lib conv q (rows\<lparr>Data := d\<rparr>) dest xs = rowLoop lib conv q rows dest xs"
  by (induction xs) (auto simp: scanRow_Data split: sum.splits)

lemma scanDest_Data: "scanDest q (rows\<lparr>Data := d\<rparr>) = scanDest q rows"
  by (simp add: scanDest_def)

text \<open>
  Claim C8. When one row of the cursor fails to scan, \<^verbatim>\<open>Collect\<close> sends one invalid metric
  with the scan error at the place of that row and goes on: what it sends is what the rows
  before it give, then that one invalid metric, then what the rows after it give, then
  the cursor's final error if there is one. Without the failing row, the same cursor
  gives the same, less that one invalid metric.
\<close>

theorem C8_row_isolation:
  assumes "scanDest q rows = Inr dest"
    and "Data rows = pre @ [bad] @ post"
    and "scanRow conv q rows dest bad = Inl err"
  shows "collectRows lib conv ign q rows =
           rowLoop lib conv q rows dest pre @ [InvalidMetric err] @ rowLoop lib conv q rows dest post
           @ (case RowsErr rows of
                Some err1 \<Rightarrow> [InvalidMetric (Wrap (logContext q) err1)] | None \<Rightarrow> [])
     \<and> collectRows lib conv ign q (rows\<lparr>Data := pre @ post\<rparr>) =
           rowLoop lib conv q rows dest pre @ rowLoop lib conv q rows dest post
           @ (case RowsErr rows of
                Some err1 \<Rightarrow> [InvalidMetric (Wrap (logContext q) err1)] | None \<Rightarrow> [])"
proof
  have "rowLoop lib conv q rows dest (bad # post) = InvalidMetric err # rowLoop lib conv q rows dest post"
    using assms(3) by simp
  then show "collectRows lib conv ign q rows =
           rowLoop lib conv q rows dest pre @ [InvalidMetric err] @ rowLoop lib conv q rows dest post
           @ (case RowsErr rows of
                Some err1 \<Rightarrow> [InvalidMetric (Wrap (logContext q) err1)] | None \<Rightarrow> [])"
    using assms(1,2) by (simp add: collectRows_def rowLoop_append)
next
  show "collectRows lib conv ign q (rows\<lparr>Data := pre @ post\<rparr>) =
           rowLoop lib conv q rows dest pre @ rowLoop lib conv q rows dest post
           @ (case RowsErr rows of
                Some err1 \<Rightarrow> [InvalidMetric (Wrap (logContext q) err1)] | None \<Rightarrow> [])"
    using assms(1) by (simp add: collectRows_def scanDest_Data rowLoop_Data rowLoop_append)
qed

theorem C8_row_isolation_witness:
  "collectRows exampleLib exampleConversions False countQuery countRows =
     [FamilyCollect countFamily [''env'' \<mapsto> NullString ''prod'' True, ''n'' \<mapsto> NullFloat64 (3 / 2) True],
      InvalidMetric (Wrapf ''job,query=q'' ''converting driver.Value type string to a float64''
                       ''scanning of query result failed''),
      FamilyCollect countFamily [''env'' \<mapsto> NullString ''dev'' True, ''n'' \<mapsto> NullFloat64 0 False]]"
proof -
  have a: "scanDest countQuery countRows = Inr [NullStringSlot, NullFloat64Slot]"
    by (simp add: scanDest_def countQuery_def countRows_def)
  have b: "Data countRows = [[DValue ''prod'', DValue ''1.5'']] @ [[DValue ''prod'', DValue ''abc'']]
             @ [[DValue ''dev'', DNull]]"
    by (simp add: countRows_def)
  have c: "scanRow exampleConversions countQuery countRows [NullStringSlot, NullFloat64Slot]
             [DValue ''prod'', DValue ''abc'']
           = Inl (Wrapf ''job,query=q'' ''converting driver.Value type string to a float64''
                    ''scanning of query result failed'')"
    by (simp add: scanRow_def rowsScan_def scanSlot_def countQuery_def countRows_def
          exampleConversions_def)
  have d: "rowLoop exampleLib exampleConversions countQuery countRows
             [NullStringSlot, NullFloat64Slot] [[DValue ''prod'', DValue ''1.5'']]
           = [FamilyCollect countFamily
                [''env'' \<mapsto> NullString ''prod'' True, ''n'' \<mapsto> NullFloat64 (3 / 2) True]]"
    by (simp add: scanRow_def rowsScan_def scanSlot_def countQuery_def countRows_def
          exampleConversions_def shouldIncludeRow_def applyTransformations_def countFamily_def)
  have e: "rowLoop exampleLib exampleConversions countQuery countRows
             [NullStringSlot, NullFloat64Slot] [[DValue ''dev'', DNull]]
           = [FamilyCollect countFamily
                [''env'' \<mapsto> NullString ''dev'' True, ''n'' \<mapsto> NullFloat64 0 False]]"
    by (simp add: scanRow_def rowsScan_def scanSlot_def countQuery_def countRows_def
          exampleConversions_def shouldIncludeRow_def applyTransformations_def countFamily_def)
  from C8_row_isolation [OF a b c, of exampleLib False] d e show ?thesis
    by (simp add: countRows_def)
qed

section \<open>Environment expansion: theorems\<close>

lemma Expand_plain: "CHR ''$'' \<notin> set pre \<Longrightarrow> Expand m (pre @ s) = pre @ Expand m s"
  by (induction pre) auto

lemma alnum_not_brace: "isAlphaNum c \<Longrightarrow> c \<noteq> CHR ''{''"
  by (auto simp: isAlphaNum_def)

lemma takeWhile_name:
  "\<forall>c \<in> set name. P c \<Longrightarrow> rest = [] \<or> \<not> P (hd rest) \<Longrightarrow> takeWhile P (name @ rest) = name"
  by (cases rest) (auto simp: takeWhile_append2)

lemma getShellName_plain:
  assumes "name \<noteq> []" and "\<forall>c \<in> set name. isAlphaNum c" and "\<not> isShellSpecialVar (hd name)"
    and "rest = [] \<or> \<not> isAlphaNum (hd rest)"
  shows "getShellName (name @ rest) = (name, length name)"
proof -
  obtain c cs where n: "name = c # cs" using assms(1) by (cases name) auto
  have c: "c \<noteq> CHR ''{''" "\<not> isShellSpecialVar c"
    using assms(2,3) n by (auto dest: alnum_not_brace)
  have "takeWhile isAlphaNum (name @ rest) = name"
    using assms(2,4) by (rule takeWhile_name)
  then show ?thesis
    using c n by (simp add: getShellName_def)
qed

lemma braceName_closed:
  "name \<noteq> [] \<Longrightarrow> CHR ''}'' \<notin> set name \<Longrightarrow>
   braceName (name @ CHR ''}'' # rest) = (name, length name + 2)"
proof -
  assume a: "name \<noteq> []" "CHR ''}'' \<notin> set name"
  have "takeWhile (\<lambda>c. c \<noteq> CHR ''}'') (name @ CHR ''}'' # rest) = name"
    using a(2) by (subst takeWhile_append2) auto
  then show ?thesis using a(1) by (simp add: braceName_def Let_def)
qed

lemma getShellName_braces:
  assumes "name \<noteq> []" and "CHR ''}'' \<notin> set name"
  shows "getShellName (CHR ''{'' # name @ CHR ''}'' # rest) = (name, length name + 2)"
proof -
  have b: "braceName (name @ CHR ''}'' # rest) = (name, length name + 2)"
    using assms by (rule braceName_closed)
  obtain d ds where n: "name = d # ds" using assms(1) by (cases name) auto
  show ?thesis
  proof (cases ds)
    case Nil
    then show ?thesis using n b by (simp add: getShellName_def)
  next
    case (Cons e es)
    then have "e \<noteq> CHR ''}''" using assms(2) n by auto
    then show ?thesis using n Cons b by (simp add: getShellName_def)
  qed
qed

lemma Expand_plain_reference:
  assumes "name \<noteq> []" and "\<forall>c \<in> set name. isAlphaNum c" and "\<not> isShellSpecialVar (hd name)"
    and "rest = [] \<or> \<not> isAlphaNum (hd rest)"
  shows "Expand m (CHR ''$'' # name @ rest) = m name @ Expand m rest"
  using assms(1) getShellName_plain [OF assms] by simp

lemma Expand_brace_reference:
  assumes "name \<noteq> []" and "CHR ''}'' \<notin> set name"
  shows "Expand m (CHR ''$'' # CHR ''{'' # name @ CHR ''}'' # rest) = m name @ Expand m rest"
  using assms(1) getShellName_braces [OF assms, of rest] by simp

lemma lookupFunc_name:
  "lookupFunc environ name = (case environ name of Some v \<Rightarrow> v | None \<Rightarrow> CHR ''$'' # name)"
  by (simp add: lookupFunc_def split: option.splits)

text \<open>
  Claim C9, as the code has it. \<^verbatim>\<open>expandEnv\<close> is a total function of the descriptor and the
  environment. (1) Text without a dollar sign is copied. (2) A reference \<^verbatim>\<open>$NAME\<close> (a name
  of letters, digits and underscores that does not start with a digit, ending where the
  next byte is none of these) and (3) a reference \<^verbatim>\<open>${NAME}\<close> are both replaced by the value
  of the variable when it is defined, and by the dollar sign followed by the name when it
  is not: for (3) this is \<^verbatim>\<open>$NAME\<close>, without the braces that were written. The expansion
  then goes on with the text after the reference.
\<close>

theorem C9_expand_env:
  "(CHR ''$'' \<notin> set pre \<longrightarrow> expandEnv environ (pre @ s) = pre @ expandEnv environ s)
   \<and> (name \<noteq> [] \<and> (\<forall>c \<in> set name. isAlphaNum c) \<and> \<not> isShellSpecialVar (hd name)
        \<and> (rest = [] \<or> \<not> isAlphaNum (hd rest)) \<longrightarrow>
      expandEnv environ (CHR ''$'' # name @ rest)
        = (case environ name of Some v \<Rightarrow> v | None \<Rightarrow> CHR ''$'' # name) @ expandEnv environ rest)
   \<and> (name \<noteq> [] \<and> CHR ''}'' \<notin> set name \<longrightarrow>
      expandEnv environ (CHR ''$'' # CHR ''{'' # name @ CHR ''}'' # rest)
        = (case environ name of Some v \<Rightarrow> v | None \<Rightarrow> CHR ''$'' # name) @ expandEnv environ rest)"
proof (intro conjI impI)
  assume "CHR ''$'' \<notin> set pre"
  then show "expandEnv environ (pre @ s) = pre @ expandEnv environ s"
    by (simp add: expandEnv_def Expand_plain)
next
  assume "name \<noteq> [] \<and> (\<forall>c \<in> set name. isAlphaNum c) \<and> \<not> isShellSpecialVar (hd name)
        \<and> (rest = [] \<or> \<not> isAlphaNum (hd rest))"
  then have "Expand (lookupFunc environ) (CHR ''$'' # name @ rest)
      = lookupFunc environ name @ Expand (lookupFunc environ) rest"
    by (intro Expand_plain_reference) simp_all
  then show "expandEnv environ (CHR ''$'' # name @ rest)
        = (case environ name of Some v \<Rightarrow> v | None \<Rightarrow> CHR ''$'' # name) @ expandEnv environ rest"
    unfolding expandEnv_def lookupFunc_name [symmetric] .
next
  assume "name \<noteq> [] \<and> CHR ''}'' \<notin> set name"
  then have "Expand (lookupFunc environ) (CHR ''$'' # CHR ''{'' # name @ CHR ''}'' # rest)
      = lookupFunc environ name @ Expand (lookupFunc environ) rest"
    by (intro Expand_brace_reference) simp_all
  then show "expandEnv environ (CHR ''$'' # CHR ''{'' # name @ CHR ''}'' # rest)
        = (case environ name of Some v \<Rightarrow> v | None \<Rightarrow> CHR ''$'' # name) @ expandEnv environ rest"
    unfolding expandEnv_def lookupFunc_name [symmetric] .
qed

theorem C9_expand_env_witness:
  "expandEnv [''U'' \<mapsto> ''bob''] (''pg://'' @ ''$U@h'') = ''pg://bob@h''
   \<and> expandEnv [''U'' \<mapsto> ''bob''] (''$'' @ ''P'' @ ''@h'') = ''$P@h''
   \<and> expandEnv [''U'' \<mapsto> ''bob''] (''${'' @ ''U'' @ ''}'' @ ''x'') = ''bobx''
   \<and> expandEnv [''U'' \<mapsto> ''bob''] (''${'' @ ''P'' @ ''}'' @ ''x'') = ''$Px''"
proof -
  have h: "expandEnv [''U'' \<mapsto> ''bob''] ''@h'' = ''@h''" "expandEnv [''U'' \<mapsto> ''bob''] ''x'' = ''x''"
    by (simp_all add: expandEnv_def)
  have u: "expandEnv [''U'' \<mapsto> ''bob''] ''$U@h'' = ''bob@h''"
    using C9_expand_env [of "[]" "[''U'' \<mapsto> ''bob'']" "[]" "''U''" "''@h''"] h
    by (simp add: isAlphaNum_def isShellSpecialVar_def)
  show ?thesis
    using C9_expand_env [of "''pg://''" "[''U'' \<mapsto> ''bob'']" "''$U@h''" "''P''" "''@h''"]
      C9_expand_env [of "[]" "[''U'' \<mapsto> ''bob'']" "[]" "''U''" "''x''"]
      C9_expand_env [of "[]" "[''U'' \<mapsto> ''bob'']" "[]" "''P''" "''x''"] h u
    by (simp add: isAlphaNum_def isShellSpecialVar_def)
qed

text \<open>
  An unresolved reference written with braces does not stay as it was written: the braces
  are dropped, and the text after the reference now follows the name directly.
\<close>

theorem C9_braces_dropped_counterexample:
  "expandEnv Map.empty ''${DB}x'' = ''$DBx'' \<and> ''$DBx'' \<noteq> ''${DB}x''"
  by (simp add: expandEnv_def lookupFunc_def getShellName_def braceName_def
        isShellSpecialVar_def)

section \<open>Maps as objects: theorems\<close>

lemma rowAt_mapAssign:
  "rowAt (mapAssign h a k v) b = (if b = a then (rowAt h a)(k \<mapsto> v) else rowAt h b)"
  by (simp add: rowAt_def mapAssign_def)

lemma maps_mapAssign: "b \<noteq> a \<Longrightarrow> maps (mapAssign h a k v) b = maps h b"
  by (simp add: mapAssign_def)

lemma nextAddr_mapAssign: "nextAddr (mapAssign h a k v) = nextAddr h"
  by (simp add: mapAssign_def)

lemma lagLoopH_frame:
  "nextAddr (lagLoopH lib row result lcs h) = nextAddr h
   \<and> (\<forall>b. b \<noteq> result \<longrightarrow> maps (lagLoopH lib row result lcs h) b = maps h b)"
  by (induction lcs arbitrary: h)
     (auto simp: Let_def maps_mapAssign nextAddr_mapAssign split: option.splits)

lemma lagLoopH_content:
  "row \<noteq> result \<Longrightarrow>
   rowAt (lagLoopH lib row result lcs h) result = lagLoop lib (rowAt h row) lcs (rowAt h result)"
  by (induction lcs arbitrary: h)
     (auto simp: Let_def rowAt_mapAssign split: option.splits)

lemma columnFilterLoopH_frame:
  "nextAddr (columnFilterLoopH result filtered cs h) = nextAddr h
   \<and> (\<forall>b. b \<noteq> filtered \<longrightarrow> maps (columnFilterLoopH result filtered cs h) b = maps h b)"
  by (induction cs arbitrary: h)
     (auto simp: maps_mapAssign nextAddr_mapAssign split: option.splits)

lemma columnFilterLoopH_content:
  "result \<noteq> filtered \<Longrightarrow>
   rowAt (columnFilterLoopH result filtered cs h) filtered
     = columnFilterLoop (rowAt h result) cs (rowAt h filtered)"
  by (induction cs arbitrary: h)
     (auto simp: rowAt_mapAssign split: option.splits)

lemma rowAt_cong: "maps h' a = maps h a \<Longrightarrow> rowAt h' a = rowAt h a"
  by (simp add: rowAt_def)

lemma makeMap_fst: "fst (makeMap h) = nextAddr h"
  by (simp add: makeMap_def)

lemma makeMap_snd:
  "nextAddr (snd (makeMap h)) = Suc (nextAddr h)"
  "rowAt (snd (makeMap h)) (nextAddr h) = Map.empty"
  "a \<noteq> nextAddr h \<Longrightarrow> maps (snd (makeMap h)) a = maps h a"
  by (simp_all add: makeMap_def rowAt_def)

lemma mapCopy_eq:
  "nextAddr (mapCopy h src dst) = nextAddr h"
  "rowAt (mapCopy h src dst) dst = rowAt h dst ++ rowAt h src"
  "a \<noteq> dst \<Longrightarrow> maps (mapCopy h src dst) a = maps h a"
  by (simp_all add: mapCopy_def rowAt_def)

text \<open>The store after the copy and the lag loop, for a row other than the new map.\<close>

lemma applyTransformationsH_result:
  assumes ne: "row \<noteq> nextAddr h"
    and h3: "h3 = lagLoopH lib row (nextAddr h) (LagCalculations metric)
                   (mapCopy (snd (makeMap h)) row (nextAddr h))"
  shows "nextAddr h3 = Suc (nextAddr h)"
    and "\<And>a. a \<noteq> nextAddr h \<Longrightarrow> maps h3 a = maps h a"
    and "rowAt h3 (nextAddr h) = lagLoop lib (rowAt h row) (LagCalculations metric) (Map.empty ++ rowAt h row)"
proof -
  let ?r = "nextAddr h"
  let ?h1 = "snd (makeMap h)"
  let ?h2 = "mapCopy ?h1 row ?r"
  have row1: "rowAt ?h1 row = rowAt h row"
    using makeMap_snd(3) [OF ne] by (rule rowAt_cong)
  have r2: "rowAt ?h2 ?r = Map.empty ++ rowAt h row"
    by (simp only: mapCopy_eq(2) makeMap_snd(2) row1)
  have "maps ?h2 row = maps ?h1 row" using ne by (rule mapCopy_eq(3))
  then have row2: "rowAt ?h2 row = rowAt h row"
    using row1 by (simp add: rowAt_def)
  have fr: "nextAddr h3 = nextAddr ?h2" "\<And>b. b \<noteq> ?r \<Longrightarrow> maps h3 b = maps ?h2 b"
    unfolding h3 using lagLoopH_frame [of lib row ?r "LagCalculations metric" ?h2] by blast+
  show "nextAddr h3 = Suc (nextAddr h)"
    using fr(1) by (simp only: mapCopy_eq(1) makeMap_snd(1))
  show "maps h3 a = maps h a" if "a \<noteq> nextAddr h" for a
    using fr(2) [OF that] mapCopy_eq(3) [OF that, of ?h1 row] makeMap_snd(3) [OF that] by simp
  have "rowAt h3 ?r = lagLoop lib (rowAt ?h2 row) (LagCalculations metric) (rowAt ?h2 ?r)"
    unfolding h3 using ne by (rule lagLoopH_content)
  then show "rowAt h3 (nextAddr h) = lagLoop lib (rowAt h row) (LagCalculations metric) (Map.empty ++ rowAt h row)"
    by (simp only: row2 r2)
qed

lemma applyTransformationsH_spec:
  assumes lt: "row < nextAddr h" and at: "applyTransformationsH lib h row metric = (t, h')"
  shows "(\<forall>a < nextAddr h. maps h' a = maps h a)
     \<and> nextAddr h \<le> t \<and> t < nextAddr h' \<and> nextAddr h \<le> nextAddr h'
     \<and> rowAt h' t = applyTransformations lib (rowAt h row) metric"
proof -
  let ?r = "nextAddr h"
  define h3 where "h3 = lagLoopH lib row ?r (LagCalculations metric)
                   (mapCopy (snd (makeMap h)) row ?r)"
  have ne: "row \<noteq> ?r" using lt by simp
  note res = applyTransformationsH_result [OF ne h3_def]
  have unfold: "applyTransformationsH lib h row metric =
      (if length (ColumnFilters metric) > 0
       then (fst (makeMap h3), columnFilterLoopH ?r (fst (makeMap h3)) (ColumnFilters metric) (snd (makeMap h3)))
       else (?r, h3))"
    by (simp add: applyTransformationsH_def h3_def Let_def makeMap_fst case_prod_beta)
  show ?thesis
  proof (cases "length (ColumnFilters metric) > 0")
    case False
    then have t: "t = ?r" "h' = h3" using at unfold by simp_all
    have "rowAt h3 ?r = applyTransformations lib (rowAt h row) metric"
      using res(3) False by (simp add: applyTransformations_def Let_def)
    then show ?thesis
      unfolding t using res(1) res(2) by simp
  next
    case True
    let ?f = "Suc ?r"
    let ?h4 = "snd (makeMap h3)"
    have f: "fst (makeMap h3) = ?f" by (simp only: makeMap_fst res(1))
    have "(t, h') = (?f, columnFilterLoopH ?r ?f (ColumnFilters metric) ?h4)"
      using at True unfolding unfold f by auto
    then have t: "t = ?f" "h' = columnFilterLoopH ?r ?f (ColumnFilters metric) ?h4"
      by blast+
    have n4: "nextAddr ?h4 = Suc ?f" by (simp only: makeMap_snd(1) res(1))
    have f4: "rowAt ?h4 ?f = Map.empty"
      using makeMap_snd(2) [of h3] by (simp only: res(1))
    have m4: "maps ?h4 a = maps h3 a" if "a \<noteq> ?f" for a
      using makeMap_snd(3) [of a h3] that res(1) by simp
    have r4: "rowAt ?h4 ?r = rowAt h3 ?r"
      using m4 [of ?r] by (simp add: rowAt_def)
    have fr: "nextAddr h' = nextAddr ?h4" "\<And>b. b \<noteq> ?f \<Longrightarrow> maps h' b = maps ?h4 b"
      unfolding t using columnFilterLoopH_frame [of ?r ?f "ColumnFilters metric" ?h4] by blast+
    have old: "maps h' a = maps h a" if "a < ?r" for a
    proof -
      have "a \<noteq> ?f" "a \<noteq> ?r" using that by simp_all
      then show ?thesis using fr(2) m4 res(2) by simp
    qed
    have "rowAt h' ?f = columnFilterLoop (rowAt ?h4 ?r) (ColumnFilters metric) (rowAt ?h4 ?f)"
      unfolding t by (rule columnFilterLoopH_content) simp
    then have "rowAt h' ?f = columnFilterLoop (rowAt h3 ?r) (ColumnFilters metric) Map.empty"
      by (simp only: r4 f4)
    then have c: "rowAt h' t = applyTransformations lib (rowAt h row) metric"
      using True res(3) t(1) by (simp add: applyTransformations_def Let_def)
    have "nextAddr h' = Suc ?f" using fr(1) n4 by simp
    then show ?thesis
      using old c t(1) by simp
  qed
qed

lemma familyLoopH_spec:
  "row < nextAddr h \<Longrightarrow> familyLoopH lib row mfs h = (sent, h') \<Longrightarrow>
   sent = familyLoop lib (rowAt h row) mfs
   \<and> (\<forall>a < nextAddr h. maps h' a = maps h a) \<and> nextAddr h \<le> nextAddr h'"
proof (induction mfs arbitrary: h sent h')
  case Nil
  then show ?case by simp
next
  case (Cons mf mfs)
  show ?case
  proof (cases "shouldIncludeRow lib (rowAt h row) mf")
    case False
    then have "familyLoopH lib row mfs h = (sent, h')"
      using Cons.prems(2) by simp
    from Cons.IH [OF Cons.prems(1) this] show ?thesis
      using False by simp
  next
    case True
    obtain t h1 where at: "applyTransformationsH lib h row mf = (t, h1)"
      by (cases "applyTransformationsH lib h row mf")
    obtain ms h2 where fl: "familyLoopH lib row mfs h1 = (ms, h2)"
      by (cases "familyLoopH lib row mfs h1")
    from applyTransformationsH_spec [OF Cons.prems(1) at]
    have a1: "\<And>a. a < nextAddr h \<Longrightarrow> maps h1 a = maps h a"
      and a2: "nextAddr h \<le> nextAddr h1"
      and a3: "rowAt h1 t = applyTransformations lib (rowAt h row) mf"
      by blast+
    have row1: "row < nextAddr h1" using a2 Cons.prems(1) by simp
    have same: "rowAt h1 row = rowAt h row"
      using a1 [OF Cons.prems(1)] by (rule rowAt_cong)
    from Cons.IH [OF row1 fl]
    have i1: "ms = familyLoop lib (rowAt h1 row) mfs"
      and i2: "\<And>a. a < nextAddr h1 \<Longrightarrow> maps h2 a = maps h1 a"
      and i3: "nextAddr h1 \<le> nextAddr h2"
      by blast+
    have "familyLoopH lib row (mf # mfs) h = (FamilyCollect mf (rowAt h1 t) # ms, h2)"
      using True at fl by simp
    then have s: "sent = FamilyCollect mf (rowAt h1 t) # ms" and h': "h' = h2"
      using Cons.prems(2) by simp_all
    have 1: "sent = familyLoop lib (rowAt h row) (mf # mfs)"
      unfolding s i1 same a3 using True by simp
    have 2: "maps h' a = maps h a" if "a < nextAddr h" for a
    proof -
      have "a < nextAddr h1" using that a2 by simp
      then show ?thesis unfolding h' using i2 a1 [OF that] by simp
    qed
    have 3: "nextAddr h \<le> nextAddr h'" unfolding h' using a2 i3 by simp
    show ?thesis using 1 2 3 by blast
  qed
qed

lemma familyLoop_map_filter:
  "familyLoop lib row mfs =
     map (\<lambda>mf. FamilyCollect mf (applyTransformations lib row mf))
       (filter (shouldIncludeRow lib row) mfs)"
  by (induction mfs) simp_all

text \<open>
  Claim C10. Let the scanned row be a map of the store. (1) \<^verbatim>\<open>applyTransformations\<close>
  returns a map at an address that was not in use before the call, so not the row; the
  call leaves the row, and every map that existed before it, as they were; and the
  returned map holds what the transformation of the row's contents gives. (2) The loop
  over the metric families leaves the row as it was, and hands to each family that
  includes the row the transformation of the original row: what one family derives or
  filters away is not seen by the filters and transformations of the others.
\<close>

theorem C10_fresh_map:
  assumes "row < nextAddr h"
  shows "(\<forall>t h'. applyTransformationsH lib h row metric = (t, h') \<longrightarrow>
            nextAddr h \<le> t \<and> t \<noteq> row \<and> maps h' row = maps h row
            \<and> (\<forall>a < nextAddr h. maps h' a = maps h a)
            \<and> rowAt h' t = applyTransformations lib (rowAt h row) metric)
     \<and> (\<forall>sent h'. familyLoopH lib row mfs h = (sent, h') \<longrightarrow>
            maps h' row = maps h row
            \<and> sent = map (\<lambda>mf. FamilyCollect mf (applyTransformations lib (rowAt h row) mf))
                       (filter (shouldIncludeRow lib (rowAt h row)) mfs))"
proof (intro conjI allI impI)
  fix t h' assume at: "applyTransformationsH lib h row metric = (t, h')"
  note s = applyTransformationsH_spec [OF assms at]
  show "nextAddr h \<le> t" using s by blast
  then show "t \<noteq> row" using assms by simp
  show "maps h' row = maps h row" using s assms by blast
  show "rowAt h' t = applyTransformations lib (rowAt h row) metric" using s by blast
  fix a assume "a < nextAddr h"
  then show "maps h' a = maps h a" using s by blast
next
  fix sent h' assume fl: "familyLoopH lib row mfs h = (sent, h')"
  note s = familyLoopH_spec [OF assms fl]
  show "maps h' row = maps h row" using s assms by blast
  show "sent = map (\<lambda>mf. FamilyCollect mf (applyTransformations lib (rowAt h row) mf))
                       (filter (shouldIncludeRow lib (rowAt h row)) mfs)"
    using s by (simp only: familyLoop_map_filter)
qed

theorem C10_fresh_map_witness:
  "maps (snd (familyLoopH exampleLib 0 [allowFamily, lagFamily] exampleHeap)) 0 = maps exampleHeap 0
   \<and> fst (familyLoopH exampleLib 0 [allowFamily, lagFamily] exampleHeap) =
       [FamilyCollect allowFamily [''lag_seconds'' \<mapsto> NullFloat64 30 True],
        FamilyCollect lagFamily
          [''env'' \<mapsto> NullString ''prod'' True, ''updated_at'' \<mapsto> NullString ''then'' True,
           ''lag_seconds'' \<mapsto> NullFloat64 30 True]]"
proof -
  have a: "(0::nat) < nextAddr exampleHeap" by (simp add: exampleHeap_def)
  have r: "rowAt exampleHeap 0 =
      [''env'' \<mapsto> NullString ''prod'' True, ''updated_at'' \<mapsto> NullString ''then'' True]"
    by (simp add: exampleHeap_def rowAt_def)
  have i: "shouldIncludeRow exampleLib (rowAt exampleHeap 0) allowFamily"
    "shouldIncludeRow exampleLib (rowAt exampleHeap 0) lagFamily"
    unfolding r
    by (simp_all add: shouldIncludeRow_def applyRowFilter_def applyOperator_def allowFamily_def
          lagFamily_def)
  have t1: "applyTransformations exampleLib (rowAt exampleHeap 0) allowFamily
      = [''lag_seconds'' \<mapsto> NullFloat64 30 True]"
    unfolding r
    by (simp add: applyTransformations_def allowFamily_def calculateLag_def lagOfString_def
          exampleLib_def)
  have t2: "applyTransformations exampleLib (rowAt exampleHeap 0) lagFamily
      = [''env'' \<mapsto> NullString ''prod'' True, ''updated_at'' \<mapsto> NullString ''then'' True,
         ''lag_seconds'' \<mapsto> NullFloat64 30 True]"
    unfolding r
    by (simp add: applyTransformations_def lagFamily_def calculateLag_def lagOfString_def
          exampleLib_def)
  from C10_fresh_map [OF a, of exampleLib _ "[allowFamily, lagFamily]"]
  have "maps (snd (familyLoopH exampleLib 0 [allowFamily, lagFamily] exampleHeap)) 0
          = maps exampleHeap 0
      \<and> fst (familyLoopH exampleLib 0 [allowFamily, lagFamily] exampleHeap)
          = map (\<lambda>mf. FamilyCollect mf (applyTransformations exampleLib (rowAt exampleHeap 0) mf))
              (filter (shouldIncludeRow exampleLib (rowAt exampleHeap 0)) [allowFamily, lagFamily])"
    by (metis prod.collapse)
  then show ?thesis
    using i t1 t2 by simp
qed

end
